theory Spec2Isabelle
  imports
    Complex_Main
    "HOL-Library.Char_ord"
    "HOL-Library.List_Lexorder"
    "HOL-Library.Product_Lexorder"
    "HOL-Library.Multiset"
begin

section \<open>Data model\<close>

text \<open>
  A row of the scored candidate table (\<^verbatim>\<open>src/types.py\<close>, class \<^verbatim>\<open>Candidate\<close>, and the
  columns built by \<^verbatim>\<open>generate_candidates\<close> and \<^verbatim>\<open>score_candidates\<close>). The column
  \<^verbatim>\<open>id\<close> is called \<open>cand_id\<close> here, since \<open>id\<close> is the identity function of HOL.
  Scores and features are Python floats; they are modelled as exact reals, so rounding,
  NaN and the infinities are outside this model. Strings are compared as Python compares
  them: lexicographically, character by character.
\<close>

record candidate =
  cand_id :: string
  urgency :: real
  confidence :: real
  impact :: real
  cost :: real
  case_type :: string
  logit :: real
  score :: real

text \<open>The value of the column \<^verbatim>\<open>capacity_stage\<close>: the strings \<^verbatim>\<open>'top_k'\<close> and \<^verbatim>\<open>'budget'\<close>.\<close>

datatype capacity_stage_value = Stage_top_k | Stage_budget

text \<open>
  A row of the dropped table: the candidate's row (field \<open>row\<close>) with the three columns
  that \<^verbatim>\<open>apply_constraints\<close> adds to it.
\<close>

record dropped_item =
  row :: candidate
  dropped_reason :: string
  capacity_stage :: capacity_stage_value
  inclusion_margin :: real

text \<open>A pandas DataFrame: the list of its column names and the list of its rows.\<close>

record 'r frame =
  columns :: "string list"
  rows :: "'r list"

text \<open>
  The dictionary returned by \<^verbatim>\<open>compute_boundary_items\<close>. Its keys \<^verbatim>\<open>threshold\<close>,
  \<^verbatim>\<open>top_k\<close> and \<^verbatim>\<open>budget\<close> carry the prefix \<open>bi_\<close>, the parameters of the functions keep
  the plain names. \<^verbatim>\<open>None\<close> is \<open>None\<close>.
\<close>

record boundary =
  bi_threshold :: real
  bi_top_k :: int
  bi_budget :: int
  kth_score :: "real option"
  kth_item :: "candidate option"
  budget_score :: "real option"
  budget_item :: "candidate option"

record count_summary =
  n_total :: nat
  n_after_threshold :: nat
  n_after_topk :: nat
  n_shown :: nat
  n_dropped :: nat

text \<open>The dictionary returned by \<^verbatim>\<open>apply_constraints\<close>.\<close>

record result_bundle =
  all_candidates :: "candidate frame"
  after_threshold :: "candidate frame"
  after_topk :: "candidate frame"
  shown :: "candidate frame"
  dropped :: "dropped_item frame"
  boundary_items :: boundary
  counts :: count_summary

text \<open>
  The two ways a call can fail: \<^verbatim>\<open>iloc[-1]\<close> on a table without rows raises
  \<^verbatim>\<open>IndexError\<close>, and a failed \<^verbatim>\<open>assert\<close> raises \<^verbatim>\<open>AssertionError\<close> with its message.
  The source has no other \<^verbatim>\<open>raise\<close>.
\<close>

datatype error = IndexError | AssertionError string

section \<open>The pandas operations used by the engine\<close>

text \<open>
  \<^verbatim>\<open>xs.iloc[:k]\<close> for a Python integer \<open>k\<close>: the first \<open>k\<close> rows when \<open>k\<close> is not
  negative, and all but the last \<open>-k\<close> rows when it is.
\<close>

definition iloc_upto :: "int \<Rightarrow> 'a list \<Rightarrow> 'a list" where
  "iloc_upto k xs =
     (if 0 \<le> k then take (nat k) xs else take (length xs - nat (- k)) xs)"

text \<open>\<^verbatim>\<open>xs.iloc[-1]\<close>: the last row, \<^verbatim>\<open>IndexError\<close> when there is none.\<close>

definition iloc_last :: "'a list \<Rightarrow> error + 'a" where
  "iloc_last xs = (case xs of [] \<Rightarrow> Inl IndexError | _ # _ \<Rightarrow> Inr (last xs))"

text \<open>
  \<^verbatim>\<open>sort_values(['score', 'id'], ascending=[False, True], kind='mergesort')\<close>: a stable
  sort by score descending, then id ascending.
\<close>

definition canonical_key :: "candidate \<Rightarrow> real \<times> string" where
  "canonical_key c = (- score c, cand_id c)"

definition sort_by_score_id :: "candidate list \<Rightarrow> candidate list" where
  "sort_by_score_id xs = sort_key canonical_key xs"

text \<open>
  \<^verbatim>\<open>sort_values(['inclusion_margin', 'score', 'id'], ascending=[True, False, True],
  kind='mergesort')\<close>: a stable sort by margin ascending, score descending, id ascending.
\<close>

definition dropped_key :: "dropped_item \<Rightarrow> real \<times> real \<times> string" where
  "dropped_key d = (inclusion_margin d, - score (row d), cand_id (row d))"

definition sort_by_margin :: "dropped_item list \<Rightarrow> dropped_item list" where
  "sort_by_margin ds = sort_key dropped_key ds"

text \<open>
  The three assignments to the copy of a slice:
  \<^verbatim>\<open>t['dropped_reason'] = 'eligible but dropped by capacity'\<close>,
  \<^verbatim>\<open>t['capacity_stage'] = stage\<close> and
  \<^verbatim>\<open>t['inclusion_margin'] = cutoff - t['score']\<close>.
\<close>

definition mark_dropped :: "capacity_stage_value \<Rightarrow> real \<Rightarrow> candidate \<Rightarrow> dropped_item" where
  "mark_dropped stage cutoff c =
     \<lparr> row = c,
       dropped_reason = ''eligible but dropped by capacity'',
       capacity_stage = stage,
       inclusion_margin = cutoff - score c \<rparr>"

text \<open>Assigning to a column appends its name unless the table already has it.\<close>

definition assign_column :: "string \<Rightarrow> string list \<Rightarrow> string list" where
  "assign_column name cols = (if name \<in> set cols then cols else cols @ [name])"

definition dropped_columns :: "string list \<Rightarrow> string list" where
  "dropped_columns cols =
     assign_column ''inclusion_margin''
       (assign_column ''capacity_stage'' (assign_column ''dropped_reason'' cols))"

section \<open>\<^verbatim>\<open>compute_boundary_items\<close>\<close>

text \<open>
  The tables are passed as their row lists. \<^verbatim>\<open>kth_score\<close> and \<^verbatim>\<open>kth_item\<close> are set
  together from the last row of \<^verbatim>\<open>after_topk\<close>, \<^verbatim>\<open>budget_score\<close> and
  \<^verbatim>\<open>budget_item\<close> from the last row of \<^verbatim>\<open>shown\<close>; both reads are guarded by
  \<^verbatim>\<open>len(...) > 0\<close>.
\<close>

definition compute_boundary_items ::
  "candidate list \<Rightarrow> candidate list \<Rightarrow> candidate list \<Rightarrow> real \<Rightarrow> int \<Rightarrow> int \<Rightarrow> int \<Rightarrow> boundary"
where
  "compute_boundary_items thr_rows topk_rows shown_rows threshold top_k budget budget_actual =
     (let is_topk_binding = (top_k < int (length thr_rows));
          kth = (if length topk_rows > 0 \<and> is_topk_binding
                 then Some (last topk_rows) else None);
          is_budget_binding =
            (int (length shown_rows) = budget_actual
             \<and> budget_actual < int (length topk_rows));
          bud = (if length shown_rows > 0 \<and> is_budget_binding
                 then Some (last shown_rows) else None)
      in \<lparr> bi_threshold = threshold,
           bi_top_k = top_k,
           bi_budget = budget,
           kth_score = map_option score kth,
           kth_item = kth,
           budget_score = map_option score bud,
           budget_item = bud \<rparr>)"

section \<open>\<^verbatim>\<open>apply_constraints\<close>\<close>

text \<open>
  The rows dropped by the top-K stage (\<^verbatim>\<open>outside_topk\<close>): the rows of
  \<^verbatim>\<open>after_threshold\<close> whose id is not an id of \<^verbatim>\<open>after_topk\<close>, each with its distance
  to the score of the last row of \<^verbatim>\<open>after_topk\<close>. The branch runs only when
  \<^verbatim>\<open>after_topk\<close> has fewer rows than \<^verbatim>\<open>after_threshold\<close>; otherwise nothing is
  appended to \<^verbatim>\<open>dropped_candidates\<close>. The read of the last row is not guarded.
\<close>

definition outside_topk :: "candidate list \<Rightarrow> candidate list \<Rightarrow> error + dropped_item list" where
  "outside_topk thr_rows topk_rows =
     (if length topk_rows < length thr_rows then
        (case iloc_last topk_rows of
           Inl e \<Rightarrow> Inl e
         | Inr kth \<Rightarrow>
             Inr (map (mark_dropped Stage_top_k (score kth))
                    (filter (\<lambda>c. cand_id c \<notin> set (map cand_id topk_rows)) thr_rows)))
      else Inr [])"

text \<open>The rows dropped by the budget stage (\<^verbatim>\<open>over_budget\<close>), in the same way.\<close>

definition over_budget :: "candidate list \<Rightarrow> candidate list \<Rightarrow> error + dropped_item list" where
  "over_budget topk_rows shown_rows =
     (if length shown_rows < length topk_rows then
        (case iloc_last shown_rows of
           Inl e \<Rightarrow> Inl e
         | Inr b \<Rightarrow>
             Inr (map (mark_dropped Stage_budget (score b))
                    (filter (\<lambda>c. cand_id c \<notin> set (map cand_id shown_rows)) topk_rows)))
      else Inr [])"

text \<open>
  The four \<^verbatim>\<open>assert\<close> statements that end \<^verbatim>\<open>apply_constraints\<close>, in their order; the
  first one that fails raises.
\<close>

definition invariant_checks ::
  "candidate list \<Rightarrow> candidate list \<Rightarrow> dropped_item list \<Rightarrow> error option" where
  "invariant_checks thr_rows shown_rows dropped_rows =
     (if set (map cand_id shown_rows) \<union> set (map (cand_id \<circ> row) dropped_rows)
           \<noteq> set (map cand_id thr_rows) then
        Some (AssertionError
          ''Partition invariant violated: shown UNION dropped != after_threshold'')
      else if set (map cand_id shown_rows) \<inter> set (map (cand_id \<circ> row) dropped_rows) \<noteq> {} then
        Some (AssertionError
          ''Disjoint invariant violated: shown INTERSECT dropped != empty'')
      else if length shown_rows + length dropped_rows \<noteq> length thr_rows then
        Some (AssertionError ''Count invariant violated'')
      else if length dropped_rows > 0
              \<and> \<not> list_all (\<lambda>d. inclusion_margin d \<ge> 0) dropped_rows then
        Some (AssertionError ''Negative margins detected'')
      else None)"

text \<open>
  The dropped table. When one of the two branches has run, \<^verbatim>\<open>dropped_candidates\<close> is
  not empty: its tables are concatenated (top-K drops first) and sorted. Otherwise the
  table is built empty from the columns of \<^verbatim>\<open>df\<close> and the three new names.
\<close>

definition build_dropped ::
  "string list \<Rightarrow> bool \<Rightarrow> dropped_item list \<Rightarrow> dropped_item list \<Rightarrow> dropped_item frame" where
  "build_dropped cols any_branch d1 d2 =
     (if any_branch then
        \<lparr> columns = dropped_columns cols, rows = sort_by_margin (d1 @ d2) \<rparr>
      else
        \<lparr> columns = cols @ [''dropped_reason'', ''capacity_stage'', ''inclusion_margin''],
          rows = [] \<rparr>)"

definition apply_constraints ::
  "candidate frame \<Rightarrow> real \<Rightarrow> int \<Rightarrow> int \<Rightarrow> error + result_bundle" where
  "apply_constraints df threshold top_k budget =
     (let cols = columns df;
          all_rows = sort_by_score_id (rows df);
          thr_rows = filter (\<lambda>c. score c \<ge> threshold) all_rows;
          k_actual = min top_k (int (length thr_rows));
          topk_rows = iloc_upto k_actual thr_rows;
          budget_actual = min budget (int (length topk_rows));
          shown_rows = iloc_upto budget_actual topk_rows
      in case outside_topk thr_rows topk_rows of
           Inl e \<Rightarrow> Inl e
         | Inr d1 \<Rightarrow>
            (case over_budget topk_rows shown_rows of
               Inl e \<Rightarrow> Inl e
             | Inr d2 \<Rightarrow>
                (let dropped_frame =
                       build_dropped cols
                         (length topk_rows < length thr_rows
                          \<or> length shown_rows < length topk_rows) d1 d2;
                     bi = compute_boundary_items thr_rows topk_rows shown_rows
                            threshold top_k budget budget_actual;
                     cnt = \<lparr> n_total = length all_rows,
                             n_after_threshold = length thr_rows,
                             n_after_topk = length topk_rows,
                             n_shown = length shown_rows,
                             n_dropped = length (rows dropped_frame) \<rparr>
                 in case invariant_checks thr_rows shown_rows (rows dropped_frame) of
                      Some e \<Rightarrow> Inl e
                    | None \<Rightarrow>
                        Inr \<lparr> all_candidates = \<lparr> columns = cols, rows = all_rows \<rparr>,
                              after_threshold = \<lparr> columns = cols, rows = thr_rows \<rparr>,
                              after_topk = \<lparr> columns = cols, rows = topk_rows \<rparr>,
                              shown = \<lparr> columns = cols, rows = shown_rows \<rparr>,
                              dropped = dropped_frame,
                              boundary_items = bi,
                              counts = cnt \<rparr>)))"

section \<open>The literal scenario of the test suite\<close>

text \<open>
  The table built by \<^verbatim>\<open>test_tie_breaking_stability\<close> in
  \<^verbatim>\<open>tests/test_constraints.py\<close>: four rows, every feature 0.5, logit 0.0 and case type
  \<^verbatim>\<open>'test'\<close>.
\<close>

definition tie_row :: "string \<Rightarrow> real \<Rightarrow> candidate" where
  "tie_row i s =
     \<lparr> cand_id = i, urgency = 0.5, confidence = 0.5, impact = 0.5, cost = 0.5,
       case_type = ''test'', logit = 0, score = s \<rparr>"

definition tie_breaking_df :: "candidate frame" where
  "tie_breaking_df =
     \<lparr> columns = [''id'', ''score'', ''urgency'', ''confidence'', ''impact'', ''cost'',
                  ''logit'', ''case_type''],
       rows = [tie_row ''C0003'' 0.6, tie_row ''C0001'' 0.5,
               tie_row ''C0002'' 0.5, tie_row ''C0004'' 0.4] \<rparr>"

section \<open>Views of a result and relabelled tables\<close>

text \<open>
  What a result says about the partition: for each stage the ids and scores of its rows,
  in order, and for the dropped table also the stage and the margin of each row.
\<close>

definition id_score :: "candidate \<Rightarrow> string \<times> real" where
  "id_score c = (cand_id c, score c)"

definition partition_view ::
  "result_bundle \<Rightarrow>
     (string \<times> real) list \<times> (string \<times> real) list \<times> (string \<times> real) list
       \<times> (string \<times> real) list \<times> ((string \<times> real) \<times> capacity_stage_value \<times> real) list" where
  "partition_view r =
     (map id_score (rows (all_candidates r)),
      map id_score (rows (after_threshold r)),
      map id_score (rows (after_topk r)),
      map id_score (rows (shown r)),
      map (\<lambda>d. (id_score (row d), capacity_stage d, inclusion_margin d)) (rows (dropped r)))"

text \<open>
  A function on rows applied to every row of a table, of a dropped row, of the boundary
  items and of a whole bundle. With a function that keeps id and score this changes the
  other attributes only; \<open>erase_attributes\<close> is one such function.
\<close>

definition relabel_dropped :: "(candidate \<Rightarrow> candidate) \<Rightarrow> dropped_item \<Rightarrow> dropped_item" where
  "relabel_dropped f d = d\<lparr> row := f (row d) \<rparr>"

definition relabel_frame :: "('a \<Rightarrow> 'a) \<Rightarrow> 'a frame \<Rightarrow> 'a frame" where
  "relabel_frame f fr = fr\<lparr> rows := map f (rows fr) \<rparr>"

definition relabel_boundary :: "(candidate \<Rightarrow> candidate) \<Rightarrow> boundary \<Rightarrow> boundary" where
  "relabel_boundary f bi =
     bi\<lparr> kth_item := map_option f (kth_item bi), budget_item := map_option f (budget_item bi) \<rparr>"

definition relabel_bundle :: "(candidate \<Rightarrow> candidate) \<Rightarrow> result_bundle \<Rightarrow> result_bundle" where
  "relabel_bundle f r =
     \<lparr> all_candidates = relabel_frame f (all_candidates r),
       after_threshold = relabel_frame f (after_threshold r),
       after_topk = relabel_frame f (after_topk r),
       shown = relabel_frame f (shown r),
       dropped = relabel_frame (relabel_dropped f) (dropped r),
       boundary_items = relabel_boundary f (boundary_items r),
       counts = counts r \<rparr>"

definition erase_attributes :: "candidate \<Rightarrow> candidate" where
  "erase_attributes c =
     \<lparr> cand_id = cand_id c, urgency = 0, confidence = 0, impact = 0, cost = 0,
       case_type = [], logit = 0, score = score c \<rparr>"

section \<open>Facts about the table operations\<close>

lemmas engine_defs =
  apply_constraints_def outside_topk_def over_budget_def invariant_checks_def
  build_dropped_def compute_boundary_items_def iloc_upto_def iloc_last_def
  sort_by_score_id_def sort_by_margin_def canonical_key_def dropped_key_def
  mark_dropped_def dropped_columns_def assign_column_def Let_def

lemma iloc_upto_take: "\<exists>m. iloc_upto k xs = take m xs"
  unfolding iloc_upto_def by auto

lemma iloc_upto_nonneg: "0 \<le> k \<Longrightarrow> iloc_upto k xs = take (nat k) xs"
  by (simp add: iloc_upto_def)

lemma iloc_upto_clamped: "0 \<le> k \<Longrightarrow> iloc_upto (min k (int (length xs))) xs = take (min (nat k) (length xs)) xs"
proof -
  assume k: "0 \<le> k"
  have "nat (min k (int (length xs))) = min (nat k) (length xs)"
    using k by (simp add: min_def) linarith
  moreover have "0 \<le> min k (int (length xs))" using k by simp
  ultimately show ?thesis by (simp add: iloc_upto_def)
qed

lemma iloc_upto_nonempty:
  assumes "1 \<le> k" "xs \<noteq> []"
  shows "iloc_upto (min k (int (length xs))) xs \<noteq> []"
proof -
  from assms have "0 < min (nat k) (length xs)" by simp
  with assms show ?thesis by (simp add: iloc_upto_clamped)
qed

lemma filter_notin_take:
  "distinct (map f xs) \<Longrightarrow> filter (\<lambda>x. f x \<notin> set (map f (take n xs))) xs = drop n xs"
proof (induction xs arbitrary: n)
  case Nil
  show ?case by simp
next
  case (Cons x xs)
  show ?case
  proof (cases n)
    case 0
    then show ?thesis by simp
  next
    case (Suc n')
    from Cons.prems have d: "distinct (map f xs)" and "f x \<notin> f ` set xs"
      by simp_all
    then have nx: "\<forall>y \<in> set xs. f y \<noteq> f x"
      by (metis imageI)
    have "filter (\<lambda>y. f y \<notin> set (map f (take n (x # xs)))) (x # xs)
        = filter (\<lambda>y. f y \<noteq> f x \<and> f y \<notin> set (map f (take n' xs))) xs"
      using Suc by simp
    also have "\<dots> = filter (\<lambda>y. f y \<notin> set (map f (take n' xs))) xs"
      using nx by (intro filter_cong refl) blast
    also have "\<dots> = drop n' xs" using Cons.IH [OF d] .
    finally show ?thesis using Suc by simp
  qed
qed

lemma canonical_key_le_score: "canonical_key a \<le> canonical_key b \<Longrightarrow> score b \<le> score a"
  by (auto simp: canonical_key_def less_eq_prod_def)

lemma sorted_tail_below_last:
  assumes "sorted (map canonical_key xs)" "take m xs \<noteq> []" "x \<in> set (drop m xs)"
  shows "score x \<le> score (last (take m xs))"
proof -
  have "sorted (map canonical_key (take m xs) @ map canonical_key (drop m xs))"
    using assms(1) by (simp flip: map_append)
  moreover have "last (take m xs) \<in> set (take m xs)" using assms(2) by simp
  ultimately have "canonical_key (last (take m xs)) \<le> canonical_key x"
    using assms(3) by (auto simp: sorted_append)
  then show ?thesis by (rule canonical_key_le_score)
qed

lemma sorted_sort_by_score_id: "sorted (map canonical_key (sort_by_score_id xs))"
  by (simp add: sort_by_score_id_def)

lemma mset_sort_by_score_id: "mset (sort_by_score_id xs) = mset xs"
  by (simp add: sort_by_score_id_def)

lemma set_sort_by_score_id: "set (sort_by_score_id xs) = set xs"
  by (simp add: sort_by_score_id_def)

lemma length_sort_by_score_id: "length (sort_by_score_id xs) = length xs"
  by (simp add: sort_by_score_id_def)

lemma distinct_ids_sort: "distinct (map cand_id xs) \<Longrightarrow> distinct (map cand_id (sort_by_score_id xs))"
proof -
  assume d: "distinct (map cand_id xs)"
  have "mset (map cand_id (sort_by_score_id xs)) = mset (map cand_id xs)"
    using mset_sort_by_score_id [of xs] by (metis mset_map)
  then show ?thesis using d by (metis distinct_count_atmost_1 set_mset_mset)
qed

lemma sorted_filter_key: "sorted (map f xs) \<Longrightarrow> sorted (map f (filter P xs))"
  by (induction xs) auto

lemma sorted_take_key: "sorted (map f xs) \<Longrightarrow> sorted (map f (take n xs))"
  by (simp add: take_map [symmetric] del: take_map)

lemma filter_notin_take_image:
  "distinct (map f xs) \<Longrightarrow> filter (\<lambda>x. f x \<notin> f ` set (take n xs)) xs = drop n xs"
  using filter_notin_take [of f xs n] by simp

lemma outside_topk_prefix:
  assumes d: "distinct (map cand_id T)" and ne: "T \<noteq> [] \<Longrightarrow> take m T \<noteq> []"
  shows "outside_topk T (take m T)
           = Inr (map (mark_dropped Stage_top_k (score (last (take m T)))) (drop m T))"
proof (cases "length (take m T) < length T")
  case True
  then have "T \<noteq> []" by auto
  then have "take m T \<noteq> []" by (rule ne)
  then have "iloc_last (take m T) = Inr (last (take m T))"
    by (simp add: iloc_last_def split: list.splits)
  with True show ?thesis
    by (simp add: outside_topk_def filter_notin_take_image [OF d])
next
  case False
  then have "drop m T = []" by simp
  with False show ?thesis by (simp add: outside_topk_def)
qed

lemma over_budget_prefix:
  assumes d: "distinct (map cand_id K)" and ne: "K \<noteq> [] \<Longrightarrow> take j K \<noteq> []"
  shows "over_budget K (take j K)
           = Inr (map (mark_dropped Stage_budget (score (last (take j K)))) (drop j K))"
proof (cases "length (take j K) < length K")
  case True
  then have "K \<noteq> []" by auto
  then have "take j K \<noteq> []" by (rule ne)
  then have "iloc_last (take j K) = Inr (last (take j K))"
    by (simp add: iloc_last_def split: list.splits)
  with True show ?thesis
    by (simp add: over_budget_def filter_notin_take_image [OF d])
next
  case False
  then have "drop j K = []" by simp
  with False show ?thesis by (simp add: over_budget_def)
qed

lemma set_sort_by_margin: "set (sort_by_margin ds) = set ds"
  by (simp add: sort_by_margin_def)

lemma length_sort_by_margin: "length (sort_by_margin ds) = length ds"
  by (simp add: sort_by_margin_def)

lemma mset_sort_by_margin: "mset (sort_by_margin ds) = mset ds"
  by (simp add: sort_by_margin_def)

lemma row_mark_dropped: "row (mark_dropped st cutoff c) = c"
  by (simp add: mark_dropped_def)

lemma rows_build_dropped:
  "rows (build_dropped cols br d1 d2) = (if br then sort_by_margin (d1 @ d2) else [])"
  by (simp add: build_dropped_def)

text \<open>The invariant checks pass on a prefix structure with distinct ids.\<close>

lemma invariant_checks_prefix:
  assumes srt: "sorted (map canonical_key T)"
    and d: "distinct (map cand_id T)"
    and neK: "T \<noteq> [] \<Longrightarrow> take m T \<noteq> []"
    and neS: "take m T \<noteq> [] \<Longrightarrow> take j (take m T) \<noteq> []"
    and d1: "d1 = map (mark_dropped Stage_top_k (score (last (take m T)))) (drop m T)"
    and d2: "d2 = map (mark_dropped Stage_budget (score (last (take j (take m T)))))
                    (drop j (take m T))"
    and dr: "set dr = set (d1 @ d2)" "length dr = length (d1 @ d2)"
  shows "invariant_checks T (take j (take m T)) dr = None"
proof -
  let ?K = "take m T" and ?S = "take j (take m T)"
  have ids_dr: "set (map (cand_id \<circ> row) dr) = cand_id ` set (drop m T) \<union> cand_id ` set (drop j ?K)"
    using dr(1) by (auto simp: d1 d2 row_mark_dropped image_Un image_image)
  have splitK: "set ?K = set ?S \<union> set (drop j ?K)"
    by (metis append_take_drop_id set_append)
  have splitT: "set T = set ?K \<union> set (drop m T)"
    by (metis append_take_drop_id set_append)
  have part: "set (map cand_id ?S) \<union> set (map (cand_id \<circ> row) dr) = set (map cand_id T)"
    unfolding ids_dr using splitK splitT by (auto simp: image_Un)
  have dK: "distinct (map cand_id ?K)"
    using d by (metis distinct_take take_map)
  have "distinct (map cand_id (?S @ drop j ?K))" using dK by (simp only: append_take_drop_id)
  then have disj1: "cand_id ` set ?S \<inter> cand_id ` set (drop j ?K) = {}"
    by (simp only: map_append distinct_append set_map)
  have "distinct (map cand_id (?K @ drop m T))" using d by (simp only: append_take_drop_id)
  then have disj2: "cand_id ` set ?K \<inter> cand_id ` set (drop m T) = {}"
    by (simp only: map_append distinct_append set_map)
  have "set ?S \<subseteq> set ?K" using splitK by blast
  then have disj3: "cand_id ` set ?S \<inter> cand_id ` set (drop m T) = {}"
    using disj2 by blast
  have disj: "set (map cand_id ?S) \<inter> set (map (cand_id \<circ> row) dr) = {}"
    unfolding ids_dr using disj1 disj3 by (simp add: Int_Un_distrib)
  have len: "length ?S + length dr = length T"
    using dr(2) by (simp add: d1 d2)
  have marg: "list_all (\<lambda>x. inclusion_margin x \<ge> 0) dr"
  proof -
    have "inclusion_margin x \<ge> 0" if "x \<in> set dr" for x
    proof -
      from that dr(1) consider "x \<in> set d1" | "x \<in> set d2" by auto
      then show ?thesis
      proof cases
        case 1
        then obtain c where c: "c \<in> set (drop m T)"
          and x: "x = mark_dropped Stage_top_k (score (last ?K)) c"
          by (auto simp: d1)
        from c have "T \<noteq> []" by auto
        then have "?K \<noteq> []" by (rule neK)
        from sorted_tail_below_last [OF srt this c] show ?thesis
          by (simp add: x mark_dropped_def)
      next
        case 2
        then obtain c where c: "c \<in> set (drop j ?K)"
          and x: "x = mark_dropped Stage_budget (score (last ?S)) c"
          by (auto simp: d2)
        have "?K \<noteq> []"
        proof
          assume "?K = []"
          then have "drop j ?K = []" by (simp only: drop_Nil)
          with c show False by simp
        qed
        then have "?S \<noteq> []" by (rule neS)
        have "sorted (map canonical_key ?K)" using srt by (rule sorted_take_key)
        from sorted_tail_below_last [OF this \<open>?S \<noteq> []\<close> c] show ?thesis
          by (simp add: x mark_dropped_def)
      qed
    qed
    then show ?thesis by (simp add: list_all_iff)
  qed
  show ?thesis
    unfolding invariant_checks_def using part disj len marg by simp
qed

lemma apply_constraints_unfold:
  assumes T: "T = filter (\<lambda>c. threshold \<le> score c) (sort_by_score_id (rows df))"
    and K: "K = iloc_upto (min top_k (int (length T))) T"
    and S: "S = iloc_upto (min budget (int (length K))) K"
  shows "apply_constraints df threshold top_k budget =
    (case outside_topk T K of
       Inl e \<Rightarrow> Inl e
     | Inr d1 \<Rightarrow>
        (case over_budget K S of
           Inl e \<Rightarrow> Inl e
         | Inr d2 \<Rightarrow>
            (case invariant_checks T S
                    (rows (build_dropped (columns df)
                       (length K < length T \<or> length S < length K) d1 d2)) of
               Some e \<Rightarrow> Inl e
             | None \<Rightarrow>
                 Inr \<lparr> all_candidates = \<lparr> columns = columns df, rows = sort_by_score_id (rows df) \<rparr>,
                       after_threshold = \<lparr> columns = columns df, rows = T \<rparr>,
                       after_topk = \<lparr> columns = columns df, rows = K \<rparr>,
                       shown = \<lparr> columns = columns df, rows = S \<rparr>,
                       dropped = build_dropped (columns df)
                          (length K < length T \<or> length S < length K) d1 d2,
                       boundary_items = compute_boundary_items T K S threshold top_k budget
                          (min budget (int (length K))),
                       counts = \<lparr> n_total = length (sort_by_score_id (rows df)),
                             n_after_threshold = length T,
                             n_after_topk = length K,
                             n_shown = length S,
                             n_dropped = length (rows (build_dropped (columns df)
                                (length K < length T \<or> length S < length K) d1 d2)) \<rparr> \<rparr>)))"
  unfolding apply_constraints_def Let_def T K S ..

lemma apply_constraints_InrD:
  assumes "apply_constraints df threshold top_k budget = Inr r"
  shows "\<exists>d1 d2.
      all_candidates r = \<lparr> columns = columns df, rows = sort_by_score_id (rows df) \<rparr>
    \<and> after_threshold r = \<lparr> columns = columns df,
          rows = filter (\<lambda>c. threshold \<le> score c) (rows (all_candidates r)) \<rparr>
    \<and> after_topk r = \<lparr> columns = columns df,
          rows = iloc_upto (min top_k (int (length (rows (after_threshold r)))))
                   (rows (after_threshold r)) \<rparr>
    \<and> shown r = \<lparr> columns = columns df,
          rows = iloc_upto (min budget (int (length (rows (after_topk r)))))
                   (rows (after_topk r)) \<rparr>
    \<and> outside_topk (rows (after_threshold r)) (rows (after_topk r)) = Inr d1
    \<and> over_budget (rows (after_topk r)) (rows (shown r)) = Inr d2
    \<and> dropped r = build_dropped (columns df)
          (length (rows (after_topk r)) < length (rows (after_threshold r))
           \<or> length (rows (shown r)) < length (rows (after_topk r))) d1 d2
    \<and> invariant_checks (rows (after_threshold r)) (rows (shown r)) (rows (dropped r)) = None
    \<and> boundary_items r = compute_boundary_items (rows (after_threshold r))
          (rows (after_topk r)) (rows (shown r)) threshold top_k budget
          (min budget (int (length (rows (after_topk r)))))
    \<and> counts r = \<lparr> n_total = length (rows (all_candidates r)),
          n_after_threshold = length (rows (after_threshold r)),
          n_after_topk = length (rows (after_topk r)),
          n_shown = length (rows (shown r)),
          n_dropped = length (rows (dropped r)) \<rparr>"
proof -
  define T where "T = filter (\<lambda>c. threshold \<le> score c) (sort_by_score_id (rows df))"
  define K where "K = iloc_upto (min top_k (int (length T))) T"
  define S where "S = iloc_upto (min budget (int (length K))) K"
  note unf = apply_constraints_unfold [OF T_def K_def S_def]
 define T where "T = filter (\<lambda>c. threshold \<le> score c) (sort_by_score_id (rows df))"
  define K where "K = iloc_upto (min top_k (int (length T))) T"
  define S where "S = iloc_upto (min budget (int (length K))) K"
  have unf: "apply_constraints df threshold top_k budget =
    (case outside_topk T K of
       Inl e \<Rightarrow> Inl e
     | Inr d1 \<Rightarrow>
        (case over_budget K S of
           Inl e \<Rightarrow> Inl e
         | Inr d2 \<Rightarrow>
            (case invariant_checks T S
                    (rows (build_dropped (columns df)
                       (length K < length T \<or> length S < length K) d1 d2)) of
               Some e \<Rightarrow> Inl e
             | None \<Rightarrow>
                 Inr \<lparr> all_candidates = \<lparr> columns = columns df, rows = sort_by_score_id (rows df) \<rparr>,
                       after_threshold = \<lparr> columns = columns df, rows = T \<rparr>,
                       after_topk = \<lparr> columns = columns df, rows = K \<rparr>,
                       shown = \<lparr> columns = columns df, rows = S \<rparr>,
                       dropped = build_dropped (columns df)
                          (length K < length T \<or> length S < length K) d1 d2,
                       boundary_items = compute_boundary_items T K S threshold top_k budget
                          (min budget (int (length K))),
                       counts = \<lparr> n_total = length (sort_by_score_id (rows df)),
                             n_after_threshold = length T,
                             n_after_topk = length K,
                             n_shown = length S,
                             n_dropped = length (rows (build_dropped (columns df)
                                (length K < length T \<or> length S < length K) d1 d2)) \<rparr> \<rparr>)))"
    unfolding apply_constraints_def Let_def T_def K_def S_def ..
  obtain d1 where d1: "outside_topk T K = Inr d1"
    using assms unfolding unf by (cases "outside_topk T K") simp_all
  obtain d2 where d2: "over_budget K S = Inr d2"
    using assms unfolding unf d1 by (cases "over_budget K S") simp_all
  let ?D = "build_dropped (columns df) (length K < length T \<or> length S < length K) d1 d2"
  have inv: "invariant_checks T S (rows ?D) = None"
    using assms unfolding unf d1 d2 by (cases "invariant_checks T S (rows ?D)") simp_all
  have r: "r = \<lparr> all_candidates = \<lparr> columns = columns df, rows = sort_by_score_id (rows df) \<rparr>,
                       after_threshold = \<lparr> columns = columns df, rows = T \<rparr>,
                       after_topk = \<lparr> columns = columns df, rows = K \<rparr>,
                       shown = \<lparr> columns = columns df, rows = S \<rparr>,
                       dropped = ?D,
                       boundary_items = compute_boundary_items T K S threshold top_k budget
                          (min budget (int (length K))),
                       counts = \<lparr> n_total = length (sort_by_score_id (rows df)),
                             n_after_threshold = length T,
                             n_after_topk = length K,
                             n_shown = length S,
                             n_dropped = length (rows ?D) \<rparr> \<rparr>"
    using assms inv unfolding unf d1 d2 by simp
  show ?thesis
    unfolding r using d1 d2 inv by (simp add: T_def K_def S_def)
qed

lemma apply_constraints_InrI:
  assumes "T = filter (\<lambda>c. threshold \<le> score c) (sort_by_score_id (rows df))"
    and "K = iloc_upto (min top_k (int (length T))) T"
    and "S = iloc_upto (min budget (int (length K))) K"
    and "outside_topk T K = Inr d1"
    and "over_budget K S = Inr d2"
    and "invariant_checks T S
           (rows (build_dropped (columns df) (length K < length T \<or> length S < length K) d1 d2))
         = None"
  shows "\<exists>r. apply_constraints df threshold top_k budget = Inr r"
  unfolding apply_constraints_unfold [OF assms(1-3)] using assms(4-6) by simp

lemma outside_topk_error:
  "outside_topk T K = Inl e \<longleftrightarrow> e = IndexError \<and> K = [] \<and> T \<noteq> []"
  by (cases K) (auto simp: outside_topk_def iloc_last_def)

lemma over_budget_error:
  "over_budget K S = Inl e \<longleftrightarrow> e = IndexError \<and> S = [] \<and> K \<noteq> []"
  by (cases S) (auto simp: over_budget_def iloc_last_def)

lemma invariant_checks_error:
  "invariant_checks T S dr = Some e \<Longrightarrow> \<exists>msg. e = AssertionError msg"
  by (auto simp: invariant_checks_def split: if_splits)

lemma apply_constraints_error_cases:
  assumes T: "T = filter (\<lambda>c. threshold \<le> score c) (sort_by_score_id (rows df))"
    and K: "K = iloc_upto (min top_k (int (length T))) T"
    and S: "S = iloc_upto (min budget (int (length K))) K"
    and e: "apply_constraints df threshold top_k budget = Inl e"
  shows "(e = IndexError \<and> (K = [] \<and> T \<noteq> [] \<or> S = [] \<and> K \<noteq> []))
       \<or> (\<exists>msg. e = AssertionError msg) \<and> (T \<noteq> [] \<longrightarrow> K \<noteq> []) \<and> (K \<noteq> [] \<longrightarrow> S \<noteq> [])"
proof (cases "outside_topk T K")
  case (Inl e1)
  with e have "e = e1" unfolding apply_constraints_unfold [OF T K S] by simp
  with Inl show ?thesis by (simp add: outside_topk_error)
next
  case d1: (Inr d1)
  then have nK: "T \<noteq> [] \<longrightarrow> K \<noteq> []"
    using outside_topk_error [of T K IndexError] by auto
  show ?thesis
  proof (cases "over_budget K S")
    case (Inl e2)
    with e d1 have "e = e2" unfolding apply_constraints_unfold [OF T K S] by simp
    with Inl show ?thesis by (simp add: over_budget_error)
  next
    case d2: (Inr d2)
    then have nS: "K \<noteq> [] \<longrightarrow> S \<noteq> []"
      using over_budget_error [of K S IndexError] by auto
    from e d1 d2 have "invariant_checks T S
        (rows (build_dropped (columns df) (length K < length T \<or> length S < length K) d1 d2))
        = Some e"
      unfolding apply_constraints_unfold [OF T K S] by (simp split: option.splits)
    from invariant_checks_error [OF this] nK nS show ?thesis by simp
  qed
qed

lemma distinct_ids_filter:
  "distinct (map cand_id xs) \<Longrightarrow> distinct (map cand_id (filter P xs))"
  by (rule distinct_map_filter)

lemma apply_constraints_returns:
  assumes d: "distinct (map cand_id (rows df))"
    and T: "T = filter (\<lambda>c. threshold \<le> score c) (sort_by_score_id (rows df))"
    and K: "K = iloc_upto (min top_k (int (length T))) T"
    and S: "S = iloc_upto (min budget (int (length K))) K"
    and neK: "T \<noteq> [] \<Longrightarrow> K \<noteq> []"
    and neS: "K \<noteq> [] \<Longrightarrow> S \<noteq> []"
  shows "\<exists>r. apply_constraints df threshold top_k budget = Inr r"
proof -
  obtain m where m: "K = take m T" using K iloc_upto_take by blast
  obtain j where j: "S = take j K" using S iloc_upto_take by blast
  have dT: "distinct (map cand_id T)"
    unfolding T by (intro distinct_ids_filter distinct_ids_sort d)
  have dK: "distinct (map cand_id K)"
    unfolding m using dT by (metis distinct_take take_map)
  have sT: "sorted (map canonical_key T)"
    unfolding T by (intro sorted_filter_key sorted_sort_by_score_id)
  define d1 where "d1 = map (mark_dropped Stage_top_k (score (last (take m T)))) (drop m T)"
  define d2 where "d2 = map (mark_dropped Stage_budget (score (last (take j (take m T)))))
                    (drop j (take m T))"
  have neK': "T \<noteq> [] \<Longrightarrow> take m T \<noteq> []" using neK unfolding m .
  have neS': "K \<noteq> [] \<Longrightarrow> take j K \<noteq> []" using neS unfolding j .
  have o1: "outside_topk T K = Inr d1"
    unfolding m d1_def by (rule outside_topk_prefix [OF dT neK'])
  have o2: "over_budget K S = Inr d2"
    unfolding j d2_def m [symmetric] by (rule over_budget_prefix [OF dK neS'])
  let ?dr = "rows (build_dropped (columns df) (length K < length T \<or> length S < length K) d1 d2)"
  have dr: "set ?dr = set (d1 @ d2) \<and> length ?dr = length (d1 @ d2)"
  proof (cases "length K < length T \<or> length S < length K")
    case True
    then show ?thesis
      by (simp only: rows_build_dropped if_True set_sort_by_margin length_sort_by_margin)
  next
    case False
    then have "length T \<le> length (take m T)" "length K \<le> length (take j K)"
      by (simp_all only: m [symmetric] j [symmetric] not_less de_Morgan_disj)
    then have "length T \<le> m" "length K \<le> j" by simp_all
    then have "drop m T = []" "drop j K = []" by simp_all
    then have "d1 = []" "d2 = []" by (simp_all add: d1_def d2_def m)
    with False show ?thesis by (simp add: rows_build_dropped)
  qed
  have "invariant_checks T (take j (take m T)) ?dr = None"
  proof (rule invariant_checks_prefix [OF sT dT _ _ d1_def d2_def])
    show "T \<noteq> [] \<Longrightarrow> take m T \<noteq> []" by (rule neK')
    show "take m T \<noteq> [] \<Longrightarrow> take j (take m T) \<noteq> []" using neS' unfolding m .
    show "set ?dr = set (d1 @ d2)" using dr by blast
    show "length ?dr = length (d1 @ d2)" using dr by blast
  qed
  then have "invariant_checks T S ?dr = None" by (simp only: m j)
  from apply_constraints_InrI [OF T K S o1 o2 this] show ?thesis .
qed

lemma topk_slice_nonempty:
  assumes "1 \<le> top_k" "T \<noteq> []"
  shows "iloc_upto (min top_k (int (length T))) T \<noteq> []"
  using assms by (rule iloc_upto_nonempty)

lemma apply_constraints_valid_returns:
  assumes "distinct (map cand_id (rows df))" "1 \<le> top_k" "1 \<le> budget"
  shows "\<exists>r. apply_constraints df threshold top_k budget = Inr r"
proof (rule apply_constraints_returns [OF assms(1) refl refl refl])
  fix T :: "candidate list"
  show "T \<noteq> [] \<Longrightarrow> iloc_upto (min top_k (int (length T))) T \<noteq> []"
    by (rule iloc_upto_nonempty [OF assms(2)])
  show "T \<noteq> [] \<Longrightarrow> iloc_upto (min budget (int (length T))) T \<noteq> []"
    by (rule iloc_upto_nonempty [OF assms(3)])
qed

lemma outside_topk_InrD:
  assumes "outside_topk T K = Inr d1"
  shows "d1 = (if length K < length T
               then map (mark_dropped Stage_top_k (score (last K)))
                      (filter (\<lambda>c. cand_id c \<notin> set (map cand_id K)) T)
               else [])"
    and "length K < length T \<Longrightarrow> K \<noteq> []"
  using assms by (cases K; auto simp: outside_topk_def iloc_last_def split: if_splits)+

lemma over_budget_InrD:
  assumes "over_budget K S = Inr d2"
  shows "d2 = (if length S < length K
               then map (mark_dropped Stage_budget (score (last S)))
                      (filter (\<lambda>c. cand_id c \<notin> set (map cand_id S)) K)
               else [])"
    and "length S < length K \<Longrightarrow> S \<noteq> []"
  using assms by (cases S; auto simp: over_budget_def iloc_last_def split: if_splits)+

lemma invariant_checks_margins:
  "invariant_checks T S dr = None \<Longrightarrow> d \<in> set dr \<Longrightarrow> 0 \<le> inclusion_margin d"
  by (cases dr) (auto simp: invariant_checks_def list_all_iff split: if_splits)

lemma shown_length_iff:
  "int (length (iloc_upto (min b (int (length K))) K)) = min b (int (length K)) \<longleftrightarrow> 0 \<le> b"
  by (auto simp: iloc_upto_def min_def)

text \<open>Where each dropped row of a returned bundle comes from.\<close>

lemma dropped_row_origin:
  assumes r: "apply_constraints df threshold top_k budget = Inr r"
    and d: "d \<in> set (rows (dropped r))"
  shows "(capacity_stage d = Stage_top_k
          \<and> length (rows (after_topk r)) < length (rows (after_threshold r))
          \<and> rows (after_topk r) \<noteq> []
          \<and> inclusion_margin d = score (last (rows (after_topk r))) - score (row d)
          \<and> row d \<in> set (rows (after_threshold r))
          \<and> cand_id (row d) \<notin> set (map cand_id (rows (after_topk r))))
       \<or> (capacity_stage d = Stage_budget
          \<and> length (rows (shown r)) < length (rows (after_topk r))
          \<and> rows (shown r) \<noteq> []
          \<and> inclusion_margin d = score (last (rows (shown r))) - score (row d)
          \<and> row d \<in> set (rows (after_topk r))
          \<and> cand_id (row d) \<notin> set (map cand_id (rows (shown r))))"
proof -
  let ?T = "rows (after_threshold r)" and ?K = "rows (after_topk r)" and ?S = "rows (shown r)"
  from apply_constraints_InrD [OF r] obtain d1 d2 where
    o1: "outside_topk ?T ?K = Inr d1" and o2: "over_budget ?K ?S = Inr d2"
    and dr: "dropped r = build_dropped (columns df)
               (length ?K < length ?T \<or> length ?S < length ?K) d1 d2"
    by blast
  from d have "d \<in> set d1 \<or> d \<in> set d2"
    unfolding dr rows_build_dropped by (auto simp: set_sort_by_margin split: if_splits)
  then show ?thesis
  proof
    assume "d \<in> set d1"
    then have lt: "length ?K < length ?T"
      using outside_topk_InrD(1) [OF o1] by (auto split: if_splits)
    with \<open>d \<in> set d1\<close> obtain c where "c \<in> set ?T" "cand_id c \<notin> set (map cand_id ?K)"
      "d = mark_dropped Stage_top_k (score (last ?K)) c"
      using outside_topk_InrD(1) [OF o1] by auto
    with lt outside_topk_InrD(2) [OF o1] show ?thesis
      by (simp add: mark_dropped_def)
  next
    assume "d \<in> set d2"
    then have lt: "length ?S < length ?K"
      using over_budget_InrD(1) [OF o2] by (auto split: if_splits)
    with \<open>d \<in> set d2\<close> obtain c where "c \<in> set ?K" "cand_id c \<notin> set (map cand_id ?S)"
      "d = mark_dropped Stage_budget (score (last ?S)) c"
      using over_budget_InrD(1) [OF o2] by auto
    with lt over_budget_InrD(2) [OF o2] show ?thesis
      by (simp add: mark_dropped_def)
  qed
qed

lemma dropped_margin_nonneg:
  assumes r: "apply_constraints df threshold top_k budget = Inr r"
    and d: "d \<in> set (rows (dropped r))"
  shows "0 \<le> inclusion_margin d"
proof -
  from apply_constraints_InrD [OF r]
  have "invariant_checks (rows (after_threshold r)) (rows (shown r)) (rows (dropped r)) = None"
    by blast
  from invariant_checks_margins [OF this d] show ?thesis .
qed

lemma iloc_upto_shorter:
  "length (iloc_upto (min k (int (length xs))) xs) < length xs \<Longrightarrow> k < int (length xs)"
proof (rule ccontr)
  assume l: "length (iloc_upto (min k (int (length xs))) xs) < length xs"
    and "\<not> k < int (length xs)"
  then have "min k (int (length xs)) = int (length xs)" by simp
  then have "iloc_upto (min k (int (length xs))) xs = xs" by (simp add: iloc_upto_def)
  with l show False by simp
qed

lemma canonical_key_le_iff:
  "canonical_key a \<le> canonical_key b
     \<longleftrightarrow> score b < score a \<or> (score a = score b \<and> cand_id a \<le> cand_id b)"
  by (auto simp: canonical_key_def less_eq_prod_def)

lemma dropped_key_le_iff:
  "dropped_key a \<le> dropped_key b
     \<longleftrightarrow> inclusion_margin a < inclusion_margin b
         \<or> (inclusion_margin a = inclusion_margin b
            \<and> (score (row b) < score (row a)
               \<or> (score (row a) = score (row b) \<and> cand_id (row a) \<le> cand_id (row b))))"
  by (auto simp: dropped_key_def less_eq_prod_def)

lemma sorted_iloc_upto: "sorted (map f xs) \<Longrightarrow> sorted (map f (iloc_upto k xs))"
  unfolding iloc_upto_def by (simp add: sorted_take_key)

lemma sorted_sort_by_margin: "sorted (map dropped_key (sort_by_margin ds))"
  by (simp add: sort_by_margin_def)

lemma sort_by_margin_stable:
  "filter (\<lambda>d. dropped_key d = k) (sort_by_margin ds) = filter (\<lambda>d. dropped_key d = k) ds"
  unfolding sort_by_margin_def by (rule sort_key_stable)

lemma sort_by_score_id_unique:
  assumes d: "distinct (map cand_id xs)" and m: "mset xs = mset ys"
  shows "sort_by_score_id xs = sort_by_score_id ys"
proof -
  let ?A = "sort_by_score_id xs" and ?B = "sort_by_score_id ys"
  have mA: "mset ?A = mset xs" and mB: "mset ?B = mset xs"
    using m by (simp_all add: mset_sort_by_score_id)
  have sets: "set ?A = set xs" "set ?B = set xs"
    using mA mB by (metis set_mset_mset)+
  have inj: "inj_on canonical_key (set xs)"
  proof (rule inj_onI)
    fix a b assume "a \<in> set xs" "b \<in> set xs" "canonical_key a = canonical_key b"
    then have "cand_id a = cand_id b" by (simp add: canonical_key_def)
    with d \<open>a \<in> set xs\<close> \<open>b \<in> set xs\<close> show "a = b"
      by (meson distinct_map inj_onD)
  qed
  have dx: "distinct xs" using d by (rule distinct_map [THEN iffD1, THEN conjunct1])
  then have dA: "distinct ?A" and dB: "distinct ?B"
    using mA mB by (metis distinct_count_atmost_1 set_mset_mset count_mset_0_iff)+
  have "distinct (map canonical_key ?A)" "distinct (map canonical_key ?B)"
    using dA dB inj sets by (simp_all add: distinct_map)
  moreover have "sorted (map canonical_key ?A)" "sorted (map canonical_key ?B)"
    by (rule sorted_sort_by_score_id)+
  moreover have "set (map canonical_key ?A) = set (map canonical_key ?B)"
    using sets by simp
  ultimately have "map canonical_key ?A = map canonical_key ?B"
    by (intro sorted_distinct_set_unique)
  moreover have "inj_on canonical_key (set ?A \<union> set ?B)" using inj sets by simp
  ultimately show ?thesis by (simp add: inj_on_map_eq_map)
qed

text \<open>Relabelling the rows of the input relabels the rows of the result.\<close>

lemma insort_key_relabel:
  assumes "\<And>c. k (f c) = k c"
  shows "insort_key k (f x) (map f xs) = map f (insort_key k x xs)"
  by (induction xs) (simp_all add: assms)

lemma sort_key_relabel:
  assumes "\<And>c. k (f c) = k c"
  shows "sort_key k (map f xs) = map f (sort_key k xs)"
  by (induction xs) (simp_all add: insort_key_relabel [of k f, OF assms])

lemma iloc_upto_map: "iloc_upto k (map f xs) = map f (iloc_upto k xs)"
  by (simp add: iloc_upto_def take_map)

lemma sort_by_score_id_relabel:
  assumes "\<And>c. cand_id (f c) = cand_id c" and "\<And>c. score (f c) = score c"
  shows "sort_by_score_id (map f xs) = map f (sort_by_score_id xs)"
  unfolding sort_by_score_id_def
  by (rule sort_key_relabel) (simp add: canonical_key_def assms)

lemma sort_by_margin_relabel:
  assumes "\<And>c. cand_id (f c) = cand_id c" and "\<And>c. score (f c) = score c"
  shows "sort_by_margin (map (relabel_dropped f) ds) = map (relabel_dropped f) (sort_by_margin ds)"
  unfolding sort_by_margin_def
  by (rule sort_key_relabel) (simp add: dropped_key_def relabel_dropped_def assms)

lemma filter_threshold_relabel:
  assumes "\<And>c. score (f c) = score c"
  shows "filter (\<lambda>c. t \<le> score c) (map f xs) = map f (filter (\<lambda>c. t \<le> score c) xs)"
  by (simp add: filter_map comp_def assms)

lemma mark_dropped_relabel:
  assumes "\<And>c. score (f c) = score c"
  shows "mark_dropped st cutoff (f c) = relabel_dropped f (mark_dropped st cutoff c)"
  by (simp add: mark_dropped_def relabel_dropped_def assms)

lemma ids_relabel:
  assumes "\<And>c. cand_id (f c) = cand_id c"
  shows "map cand_id (map f xs) = map cand_id xs"
  by (simp add: assms)

lemma outside_topk_relabel:
  assumes i: "\<And>c. cand_id (f c) = cand_id c" and s: "\<And>c. score (f c) = score c"
  shows "outside_topk (map f T) (map f K)
           = map_sum id (map (relabel_dropped f)) (outside_topk T K)"
proof (cases K)
  case Nil
  then show ?thesis by (simp add: outside_topk_def iloc_last_def)
next
  case (Cons a as)
  then have ne: "K \<noteq> []" by simp
  have "iloc_last (map f K) = Inr (f (last K))" "iloc_last K = Inr (last K)"
    using Cons by (simp_all add: iloc_last_def last_map)
  then show ?thesis
    unfolding outside_topk_def
    by (simp add: i s filter_map comp_def mark_dropped_relabel [of f, OF s])
qed

lemma over_budget_relabel:
  assumes i: "\<And>c. cand_id (f c) = cand_id c" and s: "\<And>c. score (f c) = score c"
  shows "over_budget (map f K) (map f S)
           = map_sum id (map (relabel_dropped f)) (over_budget K S)"
proof (cases S)
  case Nil
  then show ?thesis by (simp add: over_budget_def iloc_last_def)
next
  case (Cons a as)
  have "iloc_last (map f S) = Inr (f (last S))" "iloc_last S = Inr (last S)"
    using Cons by (simp_all add: iloc_last_def last_map)
  then show ?thesis
    unfolding over_budget_def
    by (simp add: i s filter_map comp_def mark_dropped_relabel [of f, OF s])
qed

lemma invariant_checks_relabel:
  assumes i: "\<And>c. cand_id (f c) = cand_id c"
  shows "invariant_checks (map f T) (map f S) (map (relabel_dropped f) dr)
           = invariant_checks T S dr"
  unfolding invariant_checks_def
  by (simp add: i relabel_dropped_def comp_def list_all_iff)

lemma build_dropped_relabel:
  assumes i: "\<And>c. cand_id (f c) = cand_id c" and s: "\<And>c. score (f c) = score c"
  shows "build_dropped cols br (map (relabel_dropped f) d1) (map (relabel_dropped f) d2)
           = relabel_frame (relabel_dropped f) (build_dropped cols br d1 d2)"
  unfolding build_dropped_def relabel_frame_def
  by (simp add: sort_by_margin_relabel [of f, OF i s] flip: map_append)

lemma compute_boundary_items_relabel:
  assumes s: "\<And>c. score (f c) = score c"
  shows "compute_boundary_items (map f T) (map f K) (map f S) t k b ba
           = relabel_boundary f (compute_boundary_items T K S t k b ba)"
  unfolding compute_boundary_items_def relabel_boundary_def Let_def
  by (simp add: last_map s option.map_comp comp_def)

lemma relabel_dropped_sel:
  "row (relabel_dropped f d) = f (row d)"
  "capacity_stage (relabel_dropped f d) = capacity_stage d"
  "inclusion_margin (relabel_dropped f d) = inclusion_margin d"
  by (simp_all add: relabel_dropped_def)

lemma rows_relabel_frame: "rows (relabel_frame f fr) = map f (rows fr)"
  by (simp add: relabel_frame_def)

lemma relabel_bundle_sel:
  "all_candidates (relabel_bundle f r) = relabel_frame f (all_candidates r)"
  "after_threshold (relabel_bundle f r) = relabel_frame f (after_threshold r)"
  "after_topk (relabel_bundle f r) = relabel_frame f (after_topk r)"
  "shown (relabel_bundle f r) = relabel_frame f (shown r)"
  "dropped (relabel_bundle f r) = relabel_frame (relabel_dropped f) (dropped r)"
  by (simp_all add: relabel_bundle_def)

lemma id_score_relabel:
  assumes "\<And>c. cand_id (f c) = cand_id c" and "\<And>c. score (f c) = score c"
  shows "id_score (f c) = id_score c"
  by (simp add: id_score_def assms)

lemma map_id_score_relabel:
  assumes "\<And>c. cand_id (f c) = cand_id c" and "\<And>c. score (f c) = score c"
  shows "map id_score (map f xs) = map id_score xs"
  by (induction xs) (simp_all add: id_score_relabel [of f, OF assms])

lemma map_view_relabel:
  assumes "\<And>c. cand_id (f c) = cand_id c" and "\<And>c. score (f c) = score c"
  shows "map (\<lambda>d. (id_score (row d), capacity_stage d, inclusion_margin d))
           (map (relabel_dropped f) ds)
       = map (\<lambda>d. (id_score (row d), capacity_stage d, inclusion_margin d)) ds"
  by (induction ds) (simp_all add: relabel_dropped_sel id_score_relabel [of f, OF assms])

lemma partition_view_relabel:
  assumes i: "\<And>c. cand_id (f c) = cand_id c" and s: "\<And>c. score (f c) = score c"
  shows "partition_view (relabel_bundle f r) = partition_view r"
  unfolding partition_view_def
  by (simp only: relabel_bundle_sel rows_relabel_frame map_id_score_relabel [of f, OF i s]
        map_view_relabel [of f, OF i s])

lemma erase_attributes_keeps:
  "cand_id (erase_attributes c) = cand_id c" "score (erase_attributes c) = score c"
  by (simp_all add: erase_attributes_def)

lemma erase_attributes_via_id_score:
  "erase_attributes c =
     \<lparr> cand_id = fst (id_score c), urgency = 0, confidence = 0, impact = 0, cost = 0,
       case_type = [], logit = 0, score = snd (id_score c) \<rparr>"
  by (simp add: erase_attributes_def id_score_def)

lemma map_erase_attributes:
  assumes "map id_score xs = map id_score ys"
  shows "map erase_attributes xs = map erase_attributes ys"
proof -
  let ?h = "\<lambda>p. \<lparr> cand_id = fst p, urgency = 0, confidence = 0, impact = 0, cost = 0,
       case_type = [], logit = 0, score = snd p \<rparr> :: candidate"
  have "map erase_attributes zs = map ?h (map id_score zs)" for zs
    by (induction zs) (simp_all add: erase_attributes_via_id_score)
  then show ?thesis by (simp only: assms)
qed

lemma apply_constraints_relabel:
  assumes i: "\<And>c. cand_id (f c) = cand_id c" and s: "\<And>c. score (f c) = score c"
  shows "apply_constraints (relabel_frame f df) threshold top_k budget
           = map_sum id (relabel_bundle f) (apply_constraints df threshold top_k budget)"
proof -
  define T where "T = filter (\<lambda>c. threshold \<le> score c) (sort_by_score_id (rows df))"
  define K where "K = iloc_upto (min top_k (int (length T))) T"
  define S where "S = iloc_upto (min budget (int (length K))) K"
  let ?g = "relabel_dropped f"
  have cols: "columns (relabel_frame f df) = columns df"
    and rws: "rows (relabel_frame f df) = map f (rows df)"
    by (simp_all add: relabel_frame_def)
  have A': "sort_by_score_id (rows (relabel_frame f df)) = map f (sort_by_score_id (rows df))"
    unfolding rws by (rule sort_by_score_id_relabel [OF i s])
  have T': "map f T
      = filter (\<lambda>c. threshold \<le> score c) (sort_by_score_id (rows (relabel_frame f df)))"
    unfolding A' T_def by (rule filter_threshold_relabel [OF s, symmetric])
  have K': "map f K = iloc_upto (min top_k (int (length (map f T)))) (map f T)"
    unfolding K_def by (simp add: iloc_upto_map)
  have S': "map f S = iloc_upto (min budget (int (length (map f K)))) (map f K)"
    unfolding S_def by (simp add: iloc_upto_map)
  note L = apply_constraints_unfold [OF T' K' S']
  note R = apply_constraints_unfold [OF T_def K_def S_def]
  show ?thesis
  proof (cases "outside_topk T K")
    case (Inl e)
    then show ?thesis
      unfolding L R outside_topk_relabel [of f, OF i s] by simp
  next
    case d1: (Inr d1)
    show ?thesis
    proof (cases "over_budget K S")
      case (Inl e)
      then show ?thesis
        unfolding L R outside_topk_relabel [of f, OF i s] over_budget_relabel [of f, OF i s] d1
        by simp
    next
      case d2: (Inr d2)
      let ?br = "length K < length T \<or> length S < length K"
      let ?D = "build_dropped (columns df) ?br d1 d2"
      have D': "build_dropped (columns df) ?br (map ?g d1) (map ?g d2) = relabel_frame ?g ?D"
        by (rule build_dropped_relabel [OF i s])
      have rD: "rows (relabel_frame ?g ?D) = map ?g (rows ?D)"
        by (simp add: relabel_frame_def)
      have inv: "invariant_checks (map f T) (map f S) (map ?g (rows ?D))
                   = invariant_checks T S (rows ?D)"
        by (rule invariant_checks_relabel [OF i])
      show ?thesis
      proof (cases "invariant_checks T S (rows ?D)")
        case (Some e)
        then show ?thesis
          unfolding L R outside_topk_relabel [of f, OF i s] over_budget_relabel [of f, OF i s]
            d1 d2
          by (simp add: cols D' rD inv)
      next
        case None
        then show ?thesis
          unfolding L R outside_topk_relabel [of f, OF i s] over_budget_relabel [of f, OF i s]
            d1 d2
          by (simp add: cols D' rD inv A' rws sort_by_score_id_relabel [of f, OF i s]
                compute_boundary_items_relabel [of f, OF s] relabel_bundle_def
                relabel_frame_def [of f])
      qed
    qed
  qed
qed

text \<open>The view of the result does not depend on the names of the columns.\<close>

lemma partition_view_columns:
  assumes "rows df1 = rows df2"
  shows "map_sum id partition_view (apply_constraints df1 threshold top_k budget)
       = map_sum id partition_view (apply_constraints df2 threshold top_k budget)"
proof -
  define T where "T = filter (\<lambda>c. threshold \<le> score c) (sort_by_score_id (rows df1))"
  define K where "K = iloc_upto (min top_k (int (length T))) T"
  define S where "S = iloc_upto (min budget (int (length K))) K"
  have T2: "T = filter (\<lambda>c. threshold \<le> score c) (sort_by_score_id (rows df2))"
    unfolding T_def assms ..
  note L = apply_constraints_unfold [OF T_def K_def S_def]
  note R = apply_constraints_unfold [OF T2 K_def S_def]
  show ?thesis
  proof (cases "outside_topk T K")
    case (Inl e)
    then show ?thesis unfolding L R by simp
  next
    case d1: (Inr d1)
    show ?thesis
    proof (cases "over_budget K S")
      case (Inl e)
      then show ?thesis unfolding L R d1 by simp
    next
      case d2: (Inr d2)
      let ?br = "length K < length T \<or> length S < length K"
      have rD: "rows (build_dropped (columns df1) ?br d1 d2)
                  = rows (build_dropped (columns df2) ?br d1 d2)"
        by (simp only: rows_build_dropped)
      have L': "apply_constraints df1 threshold top_k budget =
         (case invariant_checks T S (rows (build_dropped (columns df2) ?br d1 d2)) of
            Some e \<Rightarrow> Inl e
          | None \<Rightarrow> Inr \<lparr> all_candidates = \<lparr> columns = columns df1, rows = sort_by_score_id (rows df1) \<rparr>,
                       after_threshold = \<lparr> columns = columns df1, rows = T \<rparr>,
                       after_topk = \<lparr> columns = columns df1, rows = K \<rparr>,
                       shown = \<lparr> columns = columns df1, rows = S \<rparr>,
                       dropped = build_dropped (columns df1) ?br d1 d2,
                       boundary_items = compute_boundary_items T K S threshold top_k budget
                          (min budget (int (length K))),
                       counts = \<lparr> n_total = length (sort_by_score_id (rows df1)),
                             n_after_threshold = length T,
                             n_after_topk = length K,
                             n_shown = length S,
                             n_dropped = length (rows (build_dropped (columns df2) ?br d1 d2)) \<rparr> \<rparr>)"
        unfolding L d1 d2 by (simp only: sum.case rD)
      have R': "apply_constraints df2 threshold top_k budget =
         (case invariant_checks T S (rows (build_dropped (columns df2) ?br d1 d2)) of
            Some e \<Rightarrow> Inl e
          | None \<Rightarrow> Inr \<lparr> all_candidates = \<lparr> columns = columns df2, rows = sort_by_score_id (rows df2) \<rparr>,
                       after_threshold = \<lparr> columns = columns df2, rows = T \<rparr>,
                       after_topk = \<lparr> columns = columns df2, rows = K \<rparr>,
                       shown = \<lparr> columns = columns df2, rows = S \<rparr>,
                       dropped = build_dropped (columns df2) ?br d1 d2,
                       boundary_items = compute_boundary_items T K S threshold top_k budget
                          (min budget (int (length K))),
                       counts = \<lparr> n_total = length (sort_by_score_id (rows df2)),
                             n_after_threshold = length T,
                             n_after_topk = length K,
                             n_shown = length S,
                             n_dropped = length (rows (build_dropped (columns df2) ?br d1 d2)) \<rparr> \<rparr>)"
        unfolding R d1 d2 by (simp only: sum.case)
      show ?thesis
      proof (cases "invariant_checks T S (rows (build_dropped (columns df2) ?br d1 d2))")
        case None
        then show ?thesis
          unfolding L' R' by (simp add: partition_view_def assms rows_build_dropped)
      next
        case (Some e)
        then show ?thesis
          unfolding L' R' by simp
      qed
    qed
  qed
qed

lemma partition_view_map_sum_relabel:
  assumes i: "\<And>c. cand_id (f c) = cand_id c" and s: "\<And>c. score (f c) = score c"
  shows "map_sum id partition_view (map_sum id (relabel_bundle f) x)
           = map_sum id partition_view x"
  by (cases x) (simp_all add: partition_view_relabel [of f, OF i s])

lemma iloc_upto_subset: "set (iloc_upto k xs) \<subseteq> set xs"
  unfolding iloc_upto_def by (simp add: set_take_subset)

section \<open>The claims\<close>


text \<open>
  Claim C1. For every table with pairwise distinct ids and every top_k and budget of at
  least 1, the call returns a bundle (no assertion fires, no lookup fails), and in it the
  ids of shown together with the ids of dropped are the ids of after_threshold, no id is
  both shown and dropped, and the number of shown rows plus the number of dropped rows is
  the number of rows after the threshold (also as recorded in the counts). The threshold
  is arbitrary, and ids need not be non-empty: the statement holds in particular for
  thresholds in [0, 1] and non-empty ids.
\<close>

theorem partition_invariants:
  assumes "distinct (map cand_id (rows df))" and "1 \<le> top_k" and "1 \<le> budget"
  shows "\<exists>r. apply_constraints df threshold top_k budget = Inr r
    \<and> set (map cand_id (rows (shown r))) \<union> set (map (cand_id \<circ> row) (rows (dropped r)))
        = set (map cand_id (rows (after_threshold r)))
    \<and> set (map cand_id (rows (shown r))) \<inter> set (map (cand_id \<circ> row) (rows (dropped r))) = {}
    \<and> length (rows (shown r)) + length (rows (dropped r)) = length (rows (after_threshold r))
    \<and> n_shown (counts r) + n_dropped (counts r) = n_after_threshold (counts r)"
proof -
  from apply_constraints_valid_returns [OF assms]
  obtain r where r: "apply_constraints df threshold top_k budget = Inr r" ..
  from apply_constraints_InrD [OF r]
  have inv: "invariant_checks (rows (after_threshold r)) (rows (shown r)) (rows (dropped r)) = None"
    and cnt: "counts r = \<lparr> n_total = length (rows (all_candidates r)),
          n_after_threshold = length (rows (after_threshold r)),
          n_after_topk = length (rows (after_topk r)),
          n_shown = length (rows (shown r)),
          n_dropped = length (rows (dropped r)) \<rparr>"
    by blast+
  from inv have
    "set (map cand_id (rows (shown r))) \<union> set (map (cand_id \<circ> row) (rows (dropped r)))
        = set (map cand_id (rows (after_threshold r)))"
    "set (map cand_id (rows (shown r))) \<inter> set (map (cand_id \<circ> row) (rows (dropped r))) = {}"
    "length (rows (shown r)) + length (rows (dropped r)) = length (rows (after_threshold r))"
    unfolding invariant_checks_def by (simp_all split: if_splits)
  with r cnt show ?thesis by simp
qed

text \<open>The theorem at the table of the test suite, threshold 0.4, top_k 3, budget 2.\<close>

theorem partition_invariants_witness:
  "distinct (map cand_id (rows tie_breaking_df)) \<and> (1::int) \<le> 3 \<and> (1::int) \<le> 2
   \<and> (\<exists>r. apply_constraints tie_breaking_df 0.4 3 2 = Inr r
    \<and> set (map cand_id (rows (shown r))) \<union> set (map (cand_id \<circ> row) (rows (dropped r)))
        = set (map cand_id (rows (after_threshold r)))
    \<and> set (map cand_id (rows (shown r))) \<inter> set (map (cand_id \<circ> row) (rows (dropped r))) = {}
    \<and> length (rows (shown r)) + length (rows (dropped r)) = length (rows (after_threshold r))
    \<and> n_shown (counts r) + n_dropped (counts r) = n_after_threshold (counts r))"
proof -
  have d: "distinct (map cand_id (rows tie_breaking_df))"
    by (simp add: tie_breaking_df_def tie_row_def)
  from partition_invariants [OF d, of 3 2 "0.4"] d show ?thesis by simp
qed

text \<open>
  Claim C9. With top_k and budget of at least 1, the two reads of a last row that the
  drop-building branches make without a guard are safe: when the top-K branch runs
  (after_topk is shorter than after_threshold) after_topk has a last row, when the budget
  branch runs (shown is shorter than after_topk) shown has a last row, so neither branch,
  and hence the call, raises \<^verbatim>\<open>IndexError\<close>. Here \<open>T\<close>, \<open>K\<close> and \<open>S\<close> are the tables
  after_threshold, after_topk and shown as the function computes them.
\<close>

theorem cutoff_lookups_safe:
  assumes "1 \<le> top_k" and "1 \<le> budget"
    and T: "T = filter (\<lambda>c. threshold \<le> score c) (sort_by_score_id (rows df))"
    and K: "K = iloc_upto (min top_k (int (length T))) T"
    and S: "S = iloc_upto (min budget (int (length K))) K"
  shows "(length K < length T \<longrightarrow> K \<noteq> [] \<and> iloc_last K = Inr (last K))
       \<and> (length S < length K \<longrightarrow> S \<noteq> [] \<and> iloc_last S = Inr (last S))
       \<and> outside_topk T K \<noteq> Inl IndexError
       \<and> over_budget K S \<noteq> Inl IndexError
       \<and> apply_constraints df threshold top_k budget \<noteq> Inl IndexError"
proof -
  have nK: "T \<noteq> [] \<longrightarrow> K \<noteq> []"
    unfolding K using iloc_upto_nonempty [OF assms(1)] by blast
  have nS: "K \<noteq> [] \<longrightarrow> S \<noteq> []"
    unfolding S using iloc_upto_nonempty [OF assms(2)] by blast
  have l: "xs \<noteq> [] \<Longrightarrow> iloc_last xs = Inr (last xs)" for xs :: "candidate list"
    by (cases xs) (simp_all add: iloc_last_def)
  have 1: "length K < length T \<longrightarrow> K \<noteq> [] \<and> iloc_last K = Inr (last K)"
    using nK l by auto
  have 2: "length S < length K \<longrightarrow> S \<noteq> [] \<and> iloc_last S = Inr (last S)"
    using nS l by auto
  have 3: "outside_topk T K \<noteq> Inl IndexError"
    using nK outside_topk_error [of T K IndexError] by blast
  have 4: "over_budget K S \<noteq> Inl IndexError"
    using nS over_budget_error [of K S IndexError] by blast
  have 5: "apply_constraints df threshold top_k budget \<noteq> Inl IndexError"
  proof
    assume "apply_constraints df threshold top_k budget = Inl IndexError"
    from apply_constraints_error_cases [OF T K S this] nK nS show False by auto
  qed
  from 1 2 3 4 5 show ?thesis by blast
qed

text \<open>
  The theorem at the table of the test suite, where the top-K branch runs: three of the
  four rows that pass the threshold are kept.
\<close>

theorem cutoff_lookups_safe_witness:
  "(1::int) \<le> 3 \<and> (1::int) \<le> 2
   \<and> length (iloc_upto (min 3 (int (length (filter (\<lambda>c. 0.4 \<le> score c)
          (sort_by_score_id (rows tie_breaking_df))))))
        (filter (\<lambda>c. 0.4 \<le> score c) (sort_by_score_id (rows tie_breaking_df))))
      < length (filter (\<lambda>c. 0.4 \<le> score c) (sort_by_score_id (rows tie_breaking_df)))
   \<and> iloc_upto (min 3 (int (length (filter (\<lambda>c. 0.4 \<le> score c)
          (sort_by_score_id (rows tie_breaking_df))))))
        (filter (\<lambda>c. 0.4 \<le> score c) (sort_by_score_id (rows tie_breaking_df))) \<noteq> []
   \<and> apply_constraints tie_breaking_df 0.4 3 2 \<noteq> Inl IndexError"
proof -
  have len: "length (iloc_upto (min 3 (int (length (filter (\<lambda>c. 0.4 \<le> score c)
          (sort_by_score_id (rows tie_breaking_df))))))
        (filter (\<lambda>c. 0.4 \<le> score c) (sort_by_score_id (rows tie_breaking_df))))
      < length (filter (\<lambda>c. 0.4 \<le> score c) (sort_by_score_id (rows tie_breaking_df)))"
    by (simp add: tie_breaking_df_def tie_row_def iloc_upto_def sort_by_score_id_def
          canonical_key_def)
  from cutoff_lookups_safe [of 3 2 _ "0.4" tie_breaking_df, OF _ _ refl refl refl] len
  show ?thesis by simp
qed

text \<open>
  Claim C4. For every valid input (distinct ids, top_k and budget of at least 1) the call
  returns a bundle, and every row of its dropped table has a margin that is not negative
  and equals the cutoff score minus the row's score: for a row of stage top_k the cutoff
  is the score of the last row of after_topk, for a row of stage budget it is the score of
  the last row of shown; in each case that last row exists. Scores are exact reals here,
  so the equality is exact.
\<close>

theorem inclusion_margins:
  assumes "distinct (map cand_id (rows df))" and "1 \<le> top_k" and "1 \<le> budget"
  shows "\<exists>r. apply_constraints df threshold top_k budget = Inr r
    \<and> (\<forall>d \<in> set (rows (dropped r)).
          0 \<le> inclusion_margin d
        \<and> (capacity_stage d = Stage_top_k \<longrightarrow>
              rows (after_topk r) \<noteq> []
            \<and> inclusion_margin d = score (last (rows (after_topk r))) - score (row d))
        \<and> (capacity_stage d = Stage_budget \<longrightarrow>
              rows (shown r) \<noteq> []
            \<and> inclusion_margin d = score (last (rows (shown r))) - score (row d)))"
proof -
  from apply_constraints_valid_returns [OF assms]
  obtain r where r: "apply_constraints df threshold top_k budget = Inr r" ..
  have "0 \<le> inclusion_margin d
        \<and> (capacity_stage d = Stage_top_k \<longrightarrow>
              rows (after_topk r) \<noteq> []
            \<and> inclusion_margin d = score (last (rows (after_topk r))) - score (row d))
        \<and> (capacity_stage d = Stage_budget \<longrightarrow>
              rows (shown r) \<noteq> []
            \<and> inclusion_margin d = score (last (rows (shown r))) - score (row d))"
    if d: "d \<in> set (rows (dropped r))" for d
    using dropped_row_origin [OF r d] dropped_margin_nonneg [OF r d] by auto
  with r show ?thesis by blast
qed

text \<open>
  The theorem at the table of the test suite, threshold 0.4, top_k 3, budget 2, where the
  two margins are 0 and 0.1.
\<close>

theorem inclusion_margins_witness:
  "distinct (map cand_id (rows tie_breaking_df)) \<and> (1::int) \<le> 3 \<and> (1::int) \<le> 2
   \<and> (\<exists>r. apply_constraints tie_breaking_df 0.4 3 2 = Inr r
    \<and> (\<forall>d \<in> set (rows (dropped r)).
          0 \<le> inclusion_margin d
        \<and> (capacity_stage d = Stage_top_k \<longrightarrow>
              rows (after_topk r) \<noteq> []
            \<and> inclusion_margin d = score (last (rows (after_topk r))) - score (row d))
        \<and> (capacity_stage d = Stage_budget \<longrightarrow>
              rows (shown r) \<noteq> []
            \<and> inclusion_margin d = score (last (rows (shown r))) - score (row d)))
    \<and> map inclusion_margin (rows (dropped r)) = [0, 0.1])"
proof -
  have d: "distinct (map cand_id (rows tie_breaking_df))"
    by (simp add: tie_breaking_df_def tie_row_def)
  from inclusion_margins [OF d, of 3 2 "0.4"] obtain r where
    r: "apply_constraints tie_breaking_df 0.4 3 2 = Inr r"
    and m: "\<forall>d \<in> set (rows (dropped r)).
          0 \<le> inclusion_margin d
        \<and> (capacity_stage d = Stage_top_k \<longrightarrow>
              rows (after_topk r) \<noteq> []
            \<and> inclusion_margin d = score (last (rows (after_topk r))) - score (row d))
        \<and> (capacity_stage d = Stage_budget \<longrightarrow>
              rows (shown r) \<noteq> []
            \<and> inclusion_margin d = score (last (rows (shown r))) - score (row d))"
    by auto
  have "map inclusion_margin (rows (dropped (projr (apply_constraints tie_breaking_df 0.4 3 2))))
        = [0, 0.1]"
    by (simp add: tie_breaking_df_def tie_row_def engine_defs)
  with r have "map inclusion_margin (rows (dropped r)) = [0, 0.1]" by simp
  with d r m show ?thesis by simp
qed

text \<open>
  Claim C6 says that a call whose input violates the contract (duplicate ids, a score
  outside (0, 1), a threshold outside [0, 1], top_k or budget below 1) is rejected with an
  input-validation error that names the offending field, before any gate runs. The
  function validates nothing. At the table of the test suite a threshold of 2 returns a
  bundle in which nothing passes; top_k = -1 returns a bundle whose top-K stage keeps all
  rows but the last; two rows with the same id and scores 1.5 and 2.5 are both shown;
  top_k = 0 fails, with the \<^verbatim>\<open>IndexError\<close> of the unguarded cutoff read; and two rows
  with the same id under top_k = 1 fail with the \<^verbatim>\<open>AssertionError\<close> of the count check.
\<close>

theorem invalid_inputs_not_rejected:
  "(case apply_constraints tie_breaking_df 2 3 2 of
      Inl e \<Rightarrow> False
    | Inr r \<Rightarrow> rows (after_threshold r) = [] \<and> rows (shown r) = [] \<and> rows (dropped r) = [])
   \<and> (case apply_constraints tie_breaking_df 0.4 (- 1) 2 of
      Inl e \<Rightarrow> False
    | Inr r \<Rightarrow> map cand_id (rows (after_topk r)) = [''C0003'', ''C0001'', ''C0002''])
   \<and> (case apply_constraints
             \<lparr> columns = columns tie_breaking_df,
               rows = [tie_row ''C0001'' 1.5, tie_row ''C0001'' 2.5] \<rparr> 0 5 5 of
      Inl e \<Rightarrow> False
    | Inr r \<Rightarrow> map cand_id (rows (shown r)) = [''C0001'', ''C0001'']
             \<and> map score (rows (shown r)) = [2.5, 1.5])
   \<and> apply_constraints tie_breaking_df 0.4 0 2 = Inl IndexError
   \<and> apply_constraints
        \<lparr> columns = columns tie_breaking_df,
          rows = [tie_row ''C0001'' 0.6, tie_row ''C0001'' 0.5] \<rparr> 0 1 1
      = Inl (AssertionError ''Count invariant violated'')"
  by (simp add: tie_breaking_df_def tie_row_def engine_defs)

text \<open>
  Claim C6, as amended. The function has no validation stage. For tables whose scores are
  finite numbers, inside (0, 1) or not (the scores of this model are reals; infinite and
  NaN scores are not covered by the statement): the threshold and the scores are never
  checked, and with distinct ids and top_k and budget of at least 1 every call returns a
  bundle. A call fails in two ways only: with \<^verbatim>\<open>IndexError\<close>, from the unguarded read
  of a last row, which needs top_k or budget below 1; or with the \<^verbatim>\<open>AssertionError\<close> of
  one of the final invariant checks, which needs a duplicate id. Neither error names a
  field of the input.
\<close>

theorem failure_modes:
  "(distinct (map cand_id (rows df)) \<and> 1 \<le> top_k \<and> 1 \<le> budget
      \<longrightarrow> (\<exists>r. apply_constraints df threshold top_k budget = Inr r))
   \<and> (\<forall>e. apply_constraints df threshold top_k budget = Inl e \<longrightarrow>
          e = IndexError \<and> (top_k < 1 \<or> budget < 1)
        \<or> (\<exists>msg. e = AssertionError msg) \<and> \<not> distinct (map cand_id (rows df)))"
proof (intro conjI allI impI)
  assume "distinct (map cand_id (rows df)) \<and> 1 \<le> top_k \<and> 1 \<le> budget"
  then show "\<exists>r. apply_constraints df threshold top_k budget = Inr r"
    by (intro apply_constraints_valid_returns) simp_all
next
  fix e
  assume e: "apply_constraints df threshold top_k budget = Inl e"
  define T where "T = filter (\<lambda>c. threshold \<le> score c) (sort_by_score_id (rows df))"
  define K where "K = iloc_upto (min top_k (int (length T))) T"
  define S where "S = iloc_upto (min budget (int (length K))) K"
  from apply_constraints_error_cases [OF T_def K_def S_def e]
  consider (idx) "e = IndexError" "K = [] \<and> T \<noteq> [] \<or> S = [] \<and> K \<noteq> []"
    | (asrt) "\<exists>msg. e = AssertionError msg" "T \<noteq> [] \<longrightarrow> K \<noteq> []" "K \<noteq> [] \<longrightarrow> S \<noteq> []"
    by blast
  then show "e = IndexError \<and> (top_k < 1 \<or> budget < 1)
        \<or> (\<exists>msg. e = AssertionError msg) \<and> \<not> distinct (map cand_id (rows df))"
  proof cases
    case idx
    have "top_k < 1 \<or> budget < 1"
    proof (rule ccontr)
      assume "\<not> (top_k < 1 \<or> budget < 1)"
      then have k: "1 \<le> top_k" and b: "1 \<le> budget" by simp_all
      have "T \<noteq> [] \<longrightarrow> K \<noteq> []" unfolding K_def using iloc_upto_nonempty [OF k] by blast
      moreover have "K \<noteq> [] \<longrightarrow> S \<noteq> []" unfolding S_def using iloc_upto_nonempty [OF b] by blast
      ultimately show False using idx(2) by blast
    qed
    with idx(1) show ?thesis by simp
  next
    case asrt
    have "\<not> distinct (map cand_id (rows df))"
    proof
      assume "distinct (map cand_id (rows df))"
      from apply_constraints_returns [OF this T_def K_def S_def] asrt(2,3)
      obtain r where "apply_constraints df threshold top_k budget = Inr r" by blast
      with e show False by simp
    qed
    with asrt(1) show ?thesis by simp
  qed
qed

text \<open>
  The theorem at the table of the test suite: a threshold of 2 is accepted, and the
  failure at top_k = 0 is the \<^verbatim>\<open>IndexError\<close>.
\<close>

theorem failure_modes_witness:
  "distinct (map cand_id (rows tie_breaking_df)) \<and> (1::int) \<le> 3 \<and> (1::int) \<le> 2
   \<and> (\<exists>r. apply_constraints tie_breaking_df 2 3 2 = Inr r)
   \<and> apply_constraints tie_breaking_df 0.4 0 2 = Inl IndexError
   \<and> ((0::int) < 1 \<or> (2::int) < 1)"
proof -
  have d: "distinct (map cand_id (rows tie_breaking_df))"
    by (simp add: tie_breaking_df_def tie_row_def)
  have e: "apply_constraints tie_breaking_df 0.4 0 2 = Inl IndexError"
    by (simp add: tie_breaking_df_def tie_row_def engine_defs)
  from failure_modes [of tie_breaking_df 3 2 2] d
  have "\<exists>r. apply_constraints tie_breaking_df 2 3 2 = Inr r" by simp
  moreover from failure_modes [of tie_breaking_df 0 2 "0.4"] e
  have "(0::int) < 1 \<or> (2::int) < 1" by simp
  ultimately show ?thesis using d e by simp
qed

text \<open>
  Claim C2. For every input of the contract, that is with top_k and budget of at least 1:
  whenever the call returns a bundle, all_candidates is the input sorted by (score
  descending, id ascending), with the same rows; after_threshold is its order-preserving
  filter by score \<ge> threshold, the boundary included; after_topk is the first
  min(top_k, |after_threshold|) rows of after_threshold; and shown is the first
  min(budget, |after_topk|) rows of after_topk. With distinct ids and scores in the open
  interval (0, 1), the call does return, whatever the size of top_k and budget and
  whatever the threshold: an over-large top_k or budget is clamped by the minimum and
  never rejected, and an empty after_threshold is a result, not an error.
\<close>

theorem cascade_stages:
  assumes "1 \<le> top_k" and "1 \<le> budget"
  shows "(\<forall>r. apply_constraints df threshold top_k budget = Inr r \<longrightarrow>
            sorted (map canonical_key (rows (all_candidates r)))
          \<and> mset (rows (all_candidates r)) = mset (rows df)
          \<and> rows (after_threshold r)
              = filter (\<lambda>c. threshold \<le> score c) (rows (all_candidates r))
          \<and> rows (after_topk r)
              = take (min (nat top_k) (length (rows (after_threshold r))))
                  (rows (after_threshold r))
          \<and> rows (shown r)
              = take (min (nat budget) (length (rows (after_topk r)))) (rows (after_topk r)))
       \<and> (distinct (map cand_id (rows df))
            \<and> (\<forall>c \<in> set (rows df). 0 < score c \<and> score c < 1)
            \<longrightarrow> (\<exists>r. apply_constraints df threshold top_k budget = Inr r))"
proof (intro conjI allI impI)
  from assms have k0: "0 \<le> top_k" and b0: "0 \<le> budget" by simp_all
  fix r
  assume r: "apply_constraints df threshold top_k budget = Inr r"
  from apply_constraints_InrD [OF r] have
    a: "all_candidates r = \<lparr> columns = columns df, rows = sort_by_score_id (rows df) \<rparr>"
    and t: "after_threshold r = \<lparr> columns = columns df,
          rows = filter (\<lambda>c. threshold \<le> score c) (rows (all_candidates r)) \<rparr>"
    and k: "after_topk r = \<lparr> columns = columns df,
          rows = iloc_upto (min top_k (int (length (rows (after_threshold r)))))
                   (rows (after_threshold r)) \<rparr>"
    and s: "shown r = \<lparr> columns = columns df,
          rows = iloc_upto (min budget (int (length (rows (after_topk r)))))
                   (rows (after_topk r)) \<rparr>"
    by blast+
  show "sorted (map canonical_key (rows (all_candidates r)))"
    by (simp add: a sorted_sort_by_score_id)
  show "mset (rows (all_candidates r)) = mset (rows df)"
    by (simp add: a mset_sort_by_score_id)
  show "rows (after_threshold r) = filter (\<lambda>c. threshold \<le> score c) (rows (all_candidates r))"
    by (subst t) simp
  show "rows (after_topk r)
          = take (min (nat top_k) (length (rows (after_threshold r)))) (rows (after_threshold r))"
    by (subst k) (simp only: frame.select_convs iloc_upto_clamped [OF k0])
  show "rows (shown r)
          = take (min (nat budget) (length (rows (after_topk r)))) (rows (after_topk r))"
    by (subst s) (simp only: frame.select_convs iloc_upto_clamped [OF b0])
next
  assume "distinct (map cand_id (rows df))
            \<and> (\<forall>c \<in> set (rows df). 0 < score c \<and> score c < 1)"
  then have "distinct (map cand_id (rows df))" by (rule conjunct1)
  from apply_constraints_valid_returns [OF this assms]
  show "\<exists>r. apply_constraints df threshold top_k budget = Inr r" .
qed

text \<open>
  The theorem at the table of the test suite: with top_k = 100 and budget = 50 the call
  returns and the stages are the clamped prefixes, here all four rows; with threshold 0.9
  nothing passes and the call returns.
\<close>

theorem cascade_stages_witness:
  "(1::int) \<le> 100 \<and> (1::int) \<le> 50 \<and> (1::int) \<le> 3 \<and> (1::int) \<le> 2
   \<and> distinct (map cand_id (rows tie_breaking_df))
   \<and> list_all (\<lambda>c. 0 < score c \<and> score c < 1) (rows tie_breaking_df)
   \<and> (\<exists>r. apply_constraints tie_breaking_df 0.4 100 50 = Inr r
        \<and> sorted (map canonical_key (rows (all_candidates r)))
        \<and> mset (rows (all_candidates r)) = mset (rows tie_breaking_df)
        \<and> rows (after_threshold r)
            = filter (\<lambda>c. 0.4 \<le> score c) (rows (all_candidates r))
        \<and> rows (after_topk r)
            = take (min (nat 100) (length (rows (after_threshold r))))
                (rows (after_threshold r))
        \<and> rows (shown r)
            = take (min (nat 50) (length (rows (after_topk r)))) (rows (after_topk r))
        \<and> length (rows (shown r)) = 4)
   \<and> (\<exists>r. apply_constraints tie_breaking_df 0.9 3 2 = Inr r
        \<and> rows (after_threshold r) = filter (\<lambda>c. 0.9 \<le> score c) (rows (all_candidates r))
        \<and> rows (after_threshold r) = [])"
proof -
  have d: "distinct (map cand_id (rows tie_breaking_df))"
    by (simp add: tie_breaking_df_def tie_row_def)
  have sc: "list_all (\<lambda>c. 0 < score c \<and> score c < 1) (rows tie_breaking_df)"
    by (simp add: tie_breaking_df_def tie_row_def)
  then have sc': "\<forall>c \<in> set (rows tie_breaking_df). 0 < score c \<and> score c < 1"
    by (simp only: list_all_iff)
  have k: "(1::int) \<le> 100" "(1::int) \<le> 50" "(1::int) \<le> 3" "(1::int) \<le> 2"
    by simp_all
  note w1 = cascade_stages [OF k(1) k(2), of tie_breaking_df "0.4"]
  note w2 = cascade_stages [OF k(3) k(4), of tie_breaking_df "0.9"]
  from w1 [THEN conjunct2] d sc'
  obtain r1 where r1: "apply_constraints tie_breaking_df 0.4 100 50 = Inr r1" by blast
  from w2 [THEN conjunct2] d sc'
  obtain r2 where r2: "apply_constraints tie_breaking_df 0.9 3 2 = Inr r2" by blast
  have e1: "length (rows (shown (projr (apply_constraints tie_breaking_df 0.4 100 50)))) = 4"
    by (simp add: tie_breaking_df_def tie_row_def engine_defs)
  have e2: "rows (after_threshold (projr (apply_constraints tie_breaking_df 0.9 3 2))) = []"
    by (simp add: tie_breaking_df_def tie_row_def engine_defs)
  from e1 r1 have l1: "length (rows (shown r1)) = 4" by simp
  from e2 r2 have l2: "rows (after_threshold r2) = []" by simp
  from w1 [THEN conjunct1, rule_format, OF r1] r1 l1
  have p1: "\<exists>r. apply_constraints tie_breaking_df 0.4 100 50 = Inr r
        \<and> sorted (map canonical_key (rows (all_candidates r)))
        \<and> mset (rows (all_candidates r)) = mset (rows tie_breaking_df)
        \<and> rows (after_threshold r)
            = filter (\<lambda>c. 0.4 \<le> score c) (rows (all_candidates r))
        \<and> rows (after_topk r)
            = take (min (nat 100) (length (rows (after_threshold r))))
                (rows (after_threshold r))
        \<and> rows (shown r)
            = take (min (nat 50) (length (rows (after_topk r)))) (rows (after_topk r))
        \<and> length (rows (shown r)) = 4"
    by blast
  from w2 [THEN conjunct1, rule_format, OF r2] r2 l2
  have p2: "\<exists>r. apply_constraints tie_breaking_df 0.9 3 2 = Inr r
        \<and> rows (after_threshold r) = filter (\<lambda>c. 0.9 \<le> score c) (rows (all_candidates r))
        \<and> rows (after_threshold r) = []"
    by blast
  from k d sc p1 p2 show ?thesis by blast
qed

text \<open>
  Claim C5. In every bundle returned for a budget of the contract (the proof needs only
  that the budget is not negative), kth_item is present if and only if the top-K gate
  binds (top_k < |after_threshold|) and after_topk is not empty, and it is then the last
  row of after_topk; budget_item is present if and only if the budget gate binds
  (budget_actual < |after_topk|) and shown is not empty, and it is then the last row of
  shown. kth_score and budget_score are the scores of these items. The items are the ones
  behind the margins: every dropped row of stage top_k has the margin kth_score minus its
  score, and every dropped row of stage budget has the margin budget_score minus its
  score.
\<close>

theorem boundary_items_reported:
  assumes r: "apply_constraints df threshold top_k budget = Inr r"
    and b: "0 \<le> budget"
  shows "kth_item (boundary_items r)
           = (if top_k < int (length (rows (after_threshold r))) \<and> rows (after_topk r) \<noteq> []
              then Some (last (rows (after_topk r))) else None)
       \<and> kth_score (boundary_items r) = map_option score (kth_item (boundary_items r))
       \<and> budget_item (boundary_items r)
           = (if min budget (int (length (rows (after_topk r)))) < int (length (rows (after_topk r)))
                 \<and> rows (shown r) \<noteq> []
              then Some (last (rows (shown r))) else None)
       \<and> budget_score (boundary_items r) = map_option score (budget_item (boundary_items r))
       \<and> (\<forall>d \<in> set (rows (dropped r)). capacity_stage d = Stage_top_k \<longrightarrow>
             (\<exists>c. kth_item (boundary_items r) = Some c
                  \<and> kth_score (boundary_items r) = Some (score c)
                  \<and> inclusion_margin d = score c - score (row d)))
       \<and> (\<forall>d \<in> set (rows (dropped r)). capacity_stage d = Stage_budget \<longrightarrow>
             (\<exists>c. budget_item (boundary_items r) = Some c
                  \<and> budget_score (boundary_items r) = Some (score c)
                  \<and> inclusion_margin d = score c - score (row d)))"
proof -
  let ?T = "rows (after_threshold r)" and ?K = "rows (after_topk r)" and ?S = "rows (shown r)"
  from apply_constraints_InrD [OF r] have
    k: "?K = iloc_upto (min top_k (int (length ?T))) ?T"
    and s: "?S = iloc_upto (min budget (int (length ?K))) ?K"
    and bi: "boundary_items r = compute_boundary_items ?T ?K ?S threshold top_k budget
          (min budget (int (length ?K)))"
    by (auto simp: frame.select_convs)
  have len: "int (length ?S) = min budget (int (length ?K))"
    using b by (subst s) (simp only: shown_length_iff)
  have kth: "kth_item (boundary_items r)
           = (if top_k < int (length ?T) \<and> ?K \<noteq> [] then Some (last ?K) else None)"
    unfolding bi compute_boundary_items_def Let_def by simp
  have ks: "kth_score (boundary_items r) = map_option score (kth_item (boundary_items r))"
    unfolding bi compute_boundary_items_def Let_def by simp
  have bud: "budget_item (boundary_items r)
           = (if min budget (int (length ?K)) < int (length ?K) \<and> ?S \<noteq> []
              then Some (last ?S) else None)"
    unfolding bi compute_boundary_items_def Let_def using len by auto
  have bs: "budget_score (boundary_items r) = map_option score (budget_item (boundary_items r))"
    unfolding bi compute_boundary_items_def Let_def by simp
  have top: "\<exists>c. kth_item (boundary_items r) = Some c
                  \<and> kth_score (boundary_items r) = Some (score c)
                  \<and> inclusion_margin d = score c - score (row d)"
    if d: "d \<in> set (rows (dropped r))" and st: "capacity_stage d = Stage_top_k" for d
  proof -
    from dropped_row_origin [OF r d] st
    have lt: "length ?K < length ?T" and ne: "?K \<noteq> []"
      and m: "inclusion_margin d = score (last ?K) - score (row d)"
      by auto
    from lt have "top_k < int (length ?T)"
      by (subst (asm) k) (rule iloc_upto_shorter)
    with ne have "kth_item (boundary_items r) = Some (last ?K)" by (simp add: kth)
    with m show ?thesis by (simp add: ks)
  qed
  have low: "\<exists>c. budget_item (boundary_items r) = Some c
                  \<and> budget_score (boundary_items r) = Some (score c)
                  \<and> inclusion_margin d = score c - score (row d)"
    if d: "d \<in> set (rows (dropped r))" and st: "capacity_stage d = Stage_budget" for d
  proof -
    from dropped_row_origin [OF r d] st
    have lt: "length ?S < length ?K" and ne: "?S \<noteq> []"
      and m: "inclusion_margin d = score (last ?S) - score (row d)"
      by auto
    from lt have "budget < int (length ?K)"
      by (subst (asm) s) (rule iloc_upto_shorter)
    then have "min budget (int (length ?K)) < int (length ?K)" by simp
    with ne have "budget_item (boundary_items r) = Some (last ?S)" by (simp add: bud)
    with m show ?thesis by (simp add: bs)
  qed
  from kth ks bud bs top low show ?thesis by blast
qed

text \<open>
  The theorem at the table of the test suite, threshold 0.4, top_k 3, budget 2: both gates
  bind, kth_item is C0002 and budget_item is C0001.
\<close>

theorem boundary_items_reported_witness:
  "(0::int) \<le> 2
   \<and> (\<exists>r. apply_constraints tie_breaking_df 0.4 3 2 = Inr r
     \<and> kth_item (boundary_items r) = Some (tie_row ''C0002'' 0.5)
     \<and> kth_item (boundary_items r) = Some (last (rows (after_topk r)))
     \<and> kth_score (boundary_items r) = Some 0.5
     \<and> budget_item (boundary_items r) = Some (tie_row ''C0001'' 0.5)
     \<and> budget_item (boundary_items r) = Some (last (rows (shown r)))
     \<and> budget_score (boundary_items r) = Some 0.5)"
proof -
  have b: "(0::int) \<le> 2" by simp
  have "\<exists>r. apply_constraints tie_breaking_df 0.4 3 2 = Inr r
      \<and> kth_item (boundary_items r) = Some (tie_row ''C0002'' 0.5)
      \<and> budget_item (boundary_items r) = Some (tie_row ''C0001'' 0.5)
      \<and> (3::int) < int (length (rows (after_threshold r)))
      \<and> rows (after_topk r) \<noteq> []
      \<and> min 2 (int (length (rows (after_topk r)))) < int (length (rows (after_topk r)))
      \<and> rows (shown r) \<noteq> []"
    by (simp add: tie_breaking_df_def tie_row_def engine_defs)
  then obtain r where r: "apply_constraints tie_breaking_df 0.4 3 2 = Inr r"
    and ev: "kth_item (boundary_items r) = Some (tie_row ''C0002'' 0.5)"
      "budget_item (boundary_items r) = Some (tie_row ''C0001'' 0.5)"
      "(3::int) < int (length (rows (after_threshold r)))"
      "rows (after_topk r) \<noteq> []"
      "min 2 (int (length (rows (after_topk r)))) < int (length (rows (after_topk r)))"
      "rows (shown r) \<noteq> []"
    by blast
  from boundary_items_reported [OF r b] ev have
    "kth_item (boundary_items r) = Some (last (rows (after_topk r)))"
    "kth_score (boundary_items r) = Some 0.5"
    "budget_item (boundary_items r) = Some (last (rows (shown r)))"
    "budget_score (boundary_items r) = Some 0.5"
    by (simp_all add: tie_row_def)
  with r ev(1,2) b show ?thesis by blast
qed

text \<open>
  Claim C7. In every returned bundle, shown is sorted by score descending, with ties in
  id ascending order; dropped is sorted by margin ascending, then score descending, then
  id ascending, and it is the stable sort of the top-K drops followed by the budget
  drops: it has the same rows, and rows with equal sort keys keep the order they have in
  that concatenation. When neither gate binds (top_k is not below |after_threshold| and
  budget_actual is not below |after_topk|), dropped has no rows and its columns are the
  columns of the input followed by \<^verbatim>\<open>dropped_reason\<close>, \<^verbatim>\<open>capacity_stage\<close> and
  \<^verbatim>\<open>inclusion_margin\<close>.
\<close>

theorem output_ordering:
  assumes r: "apply_constraints df threshold top_k budget = Inr r"
  shows "sorted_wrt (\<lambda>a b. score b < score a \<or> (score a = score b \<and> cand_id a \<le> cand_id b))
           (rows (shown r))
       \<and> sorted_wrt (\<lambda>a b. inclusion_margin a < inclusion_margin b
              \<or> (inclusion_margin a = inclusion_margin b
                 \<and> (score (row b) < score (row a)
                    \<or> (score (row a) = score (row b) \<and> cand_id (row a) \<le> cand_id (row b)))))
           (rows (dropped r))
       \<and> (\<exists>d1 d2.
             outside_topk (rows (after_threshold r)) (rows (after_topk r)) = Inr d1
           \<and> over_budget (rows (after_topk r)) (rows (shown r)) = Inr d2
           \<and> mset (rows (dropped r)) = mset (d1 @ d2)
           \<and> (\<forall>k. filter (\<lambda>d. dropped_key d = k) (rows (dropped r))
                    = filter (\<lambda>d. dropped_key d = k) (d1 @ d2)))
       \<and> (\<not> top_k < int (length (rows (after_threshold r)))
            \<and> \<not> min budget (int (length (rows (after_topk r)))) < int (length (rows (after_topk r)))
          \<longrightarrow> rows (dropped r) = []
            \<and> columns (dropped r)
                = columns df @ [''dropped_reason'', ''capacity_stage'', ''inclusion_margin''])"
proof -
  let ?T = "rows (after_threshold r)" and ?K = "rows (after_topk r)" and ?S = "rows (shown r)"
  from apply_constraints_InrD [OF r] obtain d1 d2 where
    a: "rows (all_candidates r) = sort_by_score_id (rows df)"
    and t: "?T = filter (\<lambda>c. threshold \<le> score c) (rows (all_candidates r))"
    and k: "?K = iloc_upto (min top_k (int (length ?T))) ?T"
    and s: "?S = iloc_upto (min budget (int (length ?K))) ?K"
    and o1: "outside_topk ?T ?K = Inr d1" and o2: "over_budget ?K ?S = Inr d2"
    and dr: "dropped r = build_dropped (columns df)
               (length ?K < length ?T \<or> length ?S < length ?K) d1 d2"
    by (auto simp: frame.select_convs)
  have "sorted (map canonical_key (rows (all_candidates r)))"
    unfolding a by (rule sorted_sort_by_score_id)
  then have "sorted (map canonical_key ?T)" by (subst t) (rule sorted_filter_key)
  then have "sorted (map canonical_key ?K)" by (subst k) (rule sorted_iloc_upto)
  then have "sorted (map canonical_key ?S)" by (subst s) (rule sorted_iloc_upto)
  then have 1: "sorted_wrt (\<lambda>a b. score b < score a \<or> (score a = score b \<and> cand_id a \<le> cand_id b)) ?S"
    by (simp only: sorted_map canonical_key_le_iff)
  have "sorted (map dropped_key (rows (dropped r)))"
    unfolding dr rows_build_dropped by (simp add: sorted_sort_by_margin)
  then have 2: "sorted_wrt (\<lambda>a b. inclusion_margin a < inclusion_margin b
              \<or> (inclusion_margin a = inclusion_margin b
                 \<and> (score (row b) < score (row a)
                    \<or> (score (row a) = score (row b) \<and> cand_id (row a) \<le> cand_id (row b)))))
           (rows (dropped r))"
    by (simp only: sorted_map dropped_key_le_iff)
  have empty: "d1 = [] \<and> d2 = []" if "\<not> (length ?K < length ?T \<or> length ?S < length ?K)"
    using that outside_topk_InrD(1) [OF o1] over_budget_InrD(1) [OF o2] by simp
  have 3: "mset (rows (dropped r)) = mset (d1 @ d2)
           \<and> (\<forall>k. filter (\<lambda>d. dropped_key d = k) (rows (dropped r))
                    = filter (\<lambda>d. dropped_key d = k) (d1 @ d2))"
  proof (cases "length ?K < length ?T \<or> length ?S < length ?K")
    case True
    then have "rows (dropped r) = sort_by_margin (d1 @ d2)"
      unfolding dr rows_build_dropped by simp
    then show ?thesis
      by (simp only: mset_sort_by_margin sort_by_margin_stable) simp
  next
    case False
    from empty [OF this] False show ?thesis
      unfolding dr rows_build_dropped by simp
  qed
  have 4: "rows (dropped r) = []
            \<and> columns (dropped r)
                = columns df @ [''dropped_reason'', ''capacity_stage'', ''inclusion_margin'']"
    if nb: "\<not> top_k < int (length ?T) \<and> \<not> min budget (int (length ?K)) < int (length ?K)"
  proof -
    have "\<not> length ?K < length ?T"
    proof
      assume "length ?K < length ?T"
      then have "top_k < int (length ?T)"
        by (subst (asm) k) (rule iloc_upto_shorter)
      with nb show False by simp
    qed
    moreover have "\<not> length ?S < length ?K"
    proof
      assume "length ?S < length ?K"
      then have "budget < int (length ?K)"
        by (subst (asm) s) (rule iloc_upto_shorter)
      with nb show False by simp
    qed
    ultimately show ?thesis unfolding dr build_dropped_def by simp
  qed
  from 1 2 3 4 o1 o2 show ?thesis by blast
qed

text \<open>
  The theorem at the table of the test suite: with top_k = 100 and budget = 50 neither
  gate binds and dropped is the empty table with the eleven columns; with top_k = 3 and
  budget = 2 the dropped table is C0002, C0004.
\<close>

theorem output_ordering_witness:
  "(\<exists>r. apply_constraints tie_breaking_df 0.4 100 50 = Inr r
      \<and> \<not> 100 < int (length (rows (after_threshold r)))
      \<and> \<not> min 50 (int (length (rows (after_topk r)))) < int (length (rows (after_topk r)))
      \<and> rows (dropped r) = []
      \<and> columns (dropped r)
          = columns tie_breaking_df @ [''dropped_reason'', ''capacity_stage'', ''inclusion_margin'']
      \<and> sorted_wrt (\<lambda>a b. score b < score a \<or> (score a = score b \<and> cand_id a \<le> cand_id b))
           (rows (shown r)))
   \<and> (\<exists>r. apply_constraints tie_breaking_df 0.4 3 2 = Inr r
      \<and> map (\<lambda>d. cand_id (row d)) (rows (dropped r)) = [''C0002'', ''C0004'']
      \<and> sorted_wrt (\<lambda>a b. inclusion_margin a < inclusion_margin b
              \<or> (inclusion_margin a = inclusion_margin b
                 \<and> (score (row b) < score (row a)
                    \<or> (score (row a) = score (row b) \<and> cand_id (row a) \<le> cand_id (row b)))))
           (rows (dropped r)))"
proof (rule conjI)
  have "\<exists>r. apply_constraints tie_breaking_df 0.4 100 50 = Inr r
      \<and> \<not> 100 < int (length (rows (after_threshold r)))
      \<and> \<not> min 50 (int (length (rows (after_topk r)))) < int (length (rows (after_topk r)))"
    by (simp add: tie_breaking_df_def tie_row_def engine_defs)
  then obtain r1 where r1: "apply_constraints tie_breaking_df 0.4 100 50 = Inr r1"
    and nb1: "\<not> 100 < int (length (rows (after_threshold r1)))"
    and nb2: "\<not> min 50 (int (length (rows (after_topk r1)))) < int (length (rows (after_topk r1)))"
    by (elim exE conjE)
  note o = output_ordering [OF r1]
  note srt = o [THEN conjunct1]
  from o [THEN conjunct2, THEN conjunct2, THEN conjunct2] nb1 nb2
  have e: "rows (dropped r1) = [] \<and> columns (dropped r1)
          = columns tie_breaking_df @ [''dropped_reason'', ''capacity_stage'', ''inclusion_margin'']"
    by - (erule impE, intro conjI, assumption+)
  from r1 nb1 nb2 e [THEN conjunct1] e [THEN conjunct2] srt
  show "\<exists>r. apply_constraints tie_breaking_df 0.4 100 50 = Inr r
      \<and> \<not> 100 < int (length (rows (after_threshold r)))
      \<and> \<not> min 50 (int (length (rows (after_topk r)))) < int (length (rows (after_topk r)))
      \<and> rows (dropped r) = []
      \<and> columns (dropped r)
          = columns tie_breaking_df @ [''dropped_reason'', ''capacity_stage'', ''inclusion_margin'']
      \<and> sorted_wrt (\<lambda>a b. score b < score a \<or> (score a = score b \<and> cand_id a \<le> cand_id b))
           (rows (shown r))"
    by - (rule exI [of _ r1], intro conjI, assumption+)
next
  have "\<exists>r. apply_constraints tie_breaking_df 0.4 3 2 = Inr r
      \<and> map (\<lambda>d. cand_id (row d)) (rows (dropped r)) = [''C0002'', ''C0004'']"
    by (simp add: tie_breaking_df_def tie_row_def engine_defs)
  then obtain r2 where r2: "apply_constraints tie_breaking_df 0.4 3 2 = Inr r2"
    and ids: "map (\<lambda>d. cand_id (row d)) (rows (dropped r2)) = [''C0002'', ''C0004'']"
    by (elim exE conjE)
  from r2 ids output_ordering [OF r2, THEN conjunct2, THEN conjunct1]
  show "\<exists>r. apply_constraints tie_breaking_df 0.4 3 2 = Inr r
      \<and> map (\<lambda>d. cand_id (row d)) (rows (dropped r)) = [''C0002'', ''C0004'']
      \<and> sorted_wrt (\<lambda>a b. inclusion_margin a < inclusion_margin b
              \<or> (inclusion_margin a = inclusion_margin b
                 \<and> (score (row b) < score (row a)
                    \<or> (score (row a) = score (row b) \<and> cand_id (row a) \<le> cand_id (row b)))))
           (rows (dropped r))"
    by - (rule exI [of _ r2], intro conjI, assumption+)
qed

text \<open>
  Claim C8. The function is deterministic. That two calls with the same arguments give
  the same bundle holds of every function of HOL; it is faithful to the source, which
  reads no state other than its arguments and draws no random number. Independence of
  the order of presentation is the theorem: two tables with the same columns and the same
  rows in any order, the ids being pairwise distinct, give the same result, be it a
  bundle or an error.
\<close>

theorem order_independence:
  assumes "distinct (map cand_id (rows df1))"
    and "mset (rows df1) = mset (rows df2)"
    and "columns df1 = columns df2"
  shows "apply_constraints df1 threshold top_k budget
           = apply_constraints df2 threshold top_k budget"
  unfolding apply_constraints_def
  by (simp only: sort_by_score_id_unique [OF assms(1,2)] assms(3))

text \<open>The theorem at the table of the test suite and the same table in reverse order.\<close>

theorem order_independence_witness:
  "distinct (map cand_id (rows tie_breaking_df))
   \<and> mset (rows tie_breaking_df) = mset (rev (rows tie_breaking_df))
   \<and> apply_constraints tie_breaking_df 0.4 3 2
       = apply_constraints \<lparr> columns = columns tie_breaking_df,
                             rows = rev (rows tie_breaking_df) \<rparr> 0.4 3 2"
proof -
  have d: "distinct (map cand_id (rows tie_breaking_df))"
    by (simp add: tie_breaking_df_def tie_row_def)
  from order_independence [of tie_breaking_df
      "\<lparr> columns = columns tie_breaking_df, rows = rev (rows tie_breaking_df) \<rparr>" "0.4" 3 2] d
  show ?thesis by simp
qed

text \<open>
  Claim C10. The partition depends on the id and score columns and the three parameters
  only. Two tables whose rows agree, position by position, in id and score give results
  with the same view: both calls fail with the same error, or both return bundles in
  which all_candidates, after_threshold, after_topk and shown list the same ids and
  scores in the same order and dropped lists the same ids and scores with the same stage
  and the same margin, in the same order; the other attributes (urgency, confidence,
  impact, cost, case_type, logit) and the names of the columns have no influence. And
  the rows are carried through unchanged: all_candidates has exactly the rows of the
  input, and every row of after_threshold, after_topk and shown, and the row inside every
  dropped item, is a row of the input, with all its attributes.
\<close>

theorem partition_depends_on_id_and_score:
  "(map id_score (rows df1) = map id_score (rows df2)
      \<longrightarrow> map_sum id partition_view (apply_constraints df1 threshold top_k budget)
        = map_sum id partition_view (apply_constraints df2 threshold top_k budget))
   \<and> (\<forall>r. apply_constraints df1 threshold top_k budget = Inr r \<longrightarrow>
          mset (rows (all_candidates r)) = mset (rows df1)
        \<and> set (rows (after_threshold r)) \<subseteq> set (rows df1)
        \<and> set (rows (after_topk r)) \<subseteq> set (rows df1)
        \<and> set (rows (shown r)) \<subseteq> set (rows df1)
        \<and> row ` set (rows (dropped r)) \<subseteq> set (rows df1))"
proof (intro conjI allI impI)
  assume eq: "map id_score (rows df1) = map id_score (rows df2)"
  let ?e = erase_attributes
  have "rows (relabel_frame ?e df1) = rows (relabel_frame ?e df2)"
    by (simp only: rows_relabel_frame map_erase_attributes [OF eq])
  from partition_view_columns [OF this]
  have "map_sum id partition_view
          (apply_constraints (relabel_frame ?e df1) threshold top_k budget)
      = map_sum id partition_view
          (apply_constraints (relabel_frame ?e df2) threshold top_k budget)" .
  then show "map_sum id partition_view (apply_constraints df1 threshold top_k budget)
        = map_sum id partition_view (apply_constraints df2 threshold top_k budget)"
    by (simp only: apply_constraints_relabel [of ?e, OF erase_attributes_keeps]
          partition_view_map_sum_relabel [of ?e, OF erase_attributes_keeps])
next
  fix r
  assume r: "apply_constraints df1 threshold top_k budget = Inr r"
  let ?T = "rows (after_threshold r)" and ?K = "rows (after_topk r)" and ?S = "rows (shown r)"
  from apply_constraints_InrD [OF r] have
    a: "rows (all_candidates r) = sort_by_score_id (rows df1)"
    and t: "?T = filter (\<lambda>c. threshold \<le> score c) (rows (all_candidates r))"
    and k: "?K = iloc_upto (min top_k (int (length ?T))) ?T"
    and s: "?S = iloc_upto (min budget (int (length ?K))) ?K"
    by (auto simp: frame.select_convs)
  show m: "mset (rows (all_candidates r)) = mset (rows df1)"
    unfolding a by (rule mset_sort_by_score_id)
  have "set ?T \<subseteq> set (rows (all_candidates r))" by (subst t) simp
  also have "set (rows (all_candidates r)) = set (rows df1)"
    unfolding a by (rule set_sort_by_score_id)
  finally show T: "set ?T \<subseteq> set (rows df1)" .
  have KT: "set ?K \<subseteq> set ?T" by (subst k) (rule iloc_upto_subset)
  with T show K: "set ?K \<subseteq> set (rows df1)" by blast
  have "set ?S \<subseteq> set ?K" by (subst s) (rule iloc_upto_subset)
  with K show "set ?S \<subseteq> set (rows df1)" by blast
  show "row ` set (rows (dropped r)) \<subseteq> set (rows df1)"
  proof
    fix c assume "c \<in> row ` set (rows (dropped r))"
    then obtain d where d: "d \<in> set (rows (dropped r))" and c: "c = row d" by blast
    from dropped_row_origin [OF r d] have "row d \<in> set ?T \<or> row d \<in> set ?K" by blast
    with T K c show "c \<in> set (rows df1)" by blast
  qed
qed

text \<open>
  The theorem at the table of the test suite and the same table with urgency 0.9 and
  case type \<^verbatim>\<open>'other'\<close> in every row, threshold 0.4, top_k 3, budget 2.
\<close>

theorem partition_depends_on_id_and_score_witness:
  "map id_score (rows tie_breaking_df)
     = map id_score (map (\<lambda>c. c\<lparr> urgency := 0.9, case_type := ''other'' \<rparr>)
                      (rows tie_breaking_df))
   \<and> map_sum id partition_view (apply_constraints tie_breaking_df 0.4 3 2)
       = map_sum id partition_view
           (apply_constraints
              \<lparr> columns = columns tie_breaking_df,
                rows = map (\<lambda>c. c\<lparr> urgency := 0.9, case_type := ''other'' \<rparr>)
                         (rows tie_breaking_df) \<rparr> 0.4 3 2)
   \<and> (\<exists>r. apply_constraints tie_breaking_df 0.4 3 2 = Inr r
        \<and> mset (rows (all_candidates r)) = mset (rows tie_breaking_df)
        \<and> set (rows (after_threshold r)) \<subseteq> set (rows tie_breaking_df)
        \<and> set (rows (after_topk r)) \<subseteq> set (rows tie_breaking_df)
        \<and> set (rows (shown r)) \<subseteq> set (rows tie_breaking_df)
        \<and> row ` set (rows (dropped r)) \<subseteq> set (rows tie_breaking_df)
        \<and> map row (rows (dropped r)) = [tie_row ''C0002'' 0.5, tie_row ''C0004'' 0.4])"
proof -
  let ?df2 = "\<lparr> columns = columns tie_breaking_df,
                rows = map (\<lambda>c. c\<lparr> urgency := 0.9, case_type := ''other'' \<rparr>)
                         (rows tie_breaking_df) \<rparr>"
  have eq: "map id_score (rows tie_breaking_df)
     = map id_score (map (\<lambda>c. c\<lparr> urgency := 0.9, case_type := ''other'' \<rparr>)
                      (rows tie_breaking_df))"
    by (simp add: id_score_def)
  note w = partition_depends_on_id_and_score [of tie_breaking_df ?df2 "0.4" 3 2]
  from w [THEN conjunct1] eq
  have v: "map_sum id partition_view (apply_constraints tie_breaking_df 0.4 3 2)
       = map_sum id partition_view (apply_constraints ?df2 0.4 3 2)"
    by simp
  have "\<exists>r. apply_constraints tie_breaking_df 0.4 3 2 = Inr r
      \<and> map row (rows (dropped r)) = [tie_row ''C0002'' 0.5, tie_row ''C0004'' 0.4]"
    by (simp add: tie_breaking_df_def tie_row_def engine_defs)
  then obtain r where r: "apply_constraints tie_breaking_df 0.4 3 2 = Inr r"
    and dr: "map row (rows (dropped r)) = [tie_row ''C0002'' 0.5, tie_row ''C0004'' 0.4]"
    by (elim exE conjE)
  note c = w [THEN conjunct2, rule_format, OF r]
  note c1 = c [THEN conjunct1]
  note c2 = c [THEN conjunct2, THEN conjunct1]
  note c3 = c [THEN conjunct2, THEN conjunct2, THEN conjunct1]
  note c4 = c [THEN conjunct2, THEN conjunct2, THEN conjunct2, THEN conjunct1]
  note c5 = c [THEN conjunct2, THEN conjunct2, THEN conjunct2, THEN conjunct2]
  from r c1 c2 c3 c4 c5 dr
  have "\<exists>r. apply_constraints tie_breaking_df 0.4 3 2 = Inr r
        \<and> mset (rows (all_candidates r)) = mset (rows tie_breaking_df)
        \<and> set (rows (after_threshold r)) \<subseteq> set (rows tie_breaking_df)
        \<and> set (rows (after_topk r)) \<subseteq> set (rows tie_breaking_df)
        \<and> set (rows (shown r)) \<subseteq> set (rows tie_breaking_df)
        \<and> row ` set (rows (dropped r)) \<subseteq> set (rows tie_breaking_df)
        \<and> map row (rows (dropped r)) = [tie_row ''C0002'' 0.5, tie_row ''C0004'' 0.4]"
    by - (rule exI [of _ r], intro conjI, assumption+)
  with eq v show ?thesis by - (intro conjI, assumption+)
qed

end
